theory Spec2Isabelle
  imports Complex_Main "HOL-Library.AList" "HOL-Library.Char_ord" "HOL-Library.List_Lexorder"
    "HOL-Library.Product_Lexorder" "HOL-Library.Multiset"
begin

section \<open>Configuration model (internal/config/types.go)\<close>

text \<open>
  Go strings are byte sequences compared bytewise; \<open>string\<close> with the orders of
  \<open>Char_ord\<close> and \<open>List_Lexorder\<close> is the same order. The Go \<open>int\<close> fields are only
  assigned and compared, never computed with, so they are \<open>int\<close>. A slice is a list; a
  nil slice or map is the empty one (the code only takes their length and ranges over
  them). The Go map of groups is the list of its entries, read with \<open>map_of\<close> and
  written with \<open>AList.update\<close>; the order of the entries has no meaning. A nilable
  pointer is an \<open>option\<close>.
\<close>

record Schedule =
  Interval :: string
  Day :: string
  Time :: string
  Timezone :: string

record GroupConfig =
  DependencyType :: string
  Patterns :: "string list"
  ExcludePatterns :: "string list"
  UpdateTypes :: "string list"

record CommitMessage =
  Prefix :: string
  PrefixDevelopment :: string
  Include :: string

record IgnoreConfig =
  Ignore_DependencyName :: string
  Ignore_Versions :: "string list"
  Ignore_UpdateTypes :: "string list"

record AllowConfig =
  Allow_DependencyName :: string
  Allow_DependencyType :: string

record DependabotUpdate =
  PackageEcosystem :: string
  Directory :: string
  Schedule :: Schedule
  OpenPullRequestsLimit :: int
  Labels :: "string list"
  Reviewers :: "string list"
  Assignees :: "string list"
  Milestone :: int
  Groups :: "(string \<times> GroupConfig) list"
  VersioningStrategy :: string
  CommitMessage :: "CommitMessage option"
  TargetBranch :: string
  Vendor :: bool
  Insecure :: "string list"
  RebaseStrategy :: string
  Ignore :: "IgnoreConfig list"
  Allow :: "AllowConfig list"
  Registries :: "string list"

record DependabotConfig =
  Version :: int
  Updates :: "DependabotUpdate list"

text \<open>\<open>DependabotUpdate.Equal\<close>: four comparisons, each an early \<open>return false\<close>.\<close>

definition Update_Equal :: "DependabotUpdate \<Rightarrow> DependabotUpdate \<Rightarrow> bool" where
  "Update_Equal u other =
     (if PackageEcosystem u \<noteq> PackageEcosystem other then False
      else if Directory u \<noteq> Directory other then False
      else if Interval (Schedule u) \<noteq> Interval (Schedule other) then False
      else if OpenPullRequestsLimit u \<noteq> OpenPullRequestsLimit other then False
      else True)"

text \<open>
  The loop of \<open>DependabotConfig.Equal\<close> over the indices of \<open>c.Updates\<close>; it runs
  only after the lengths were found equal, so \<open>other.Updates[i]\<close> is always in range.
  The two remaining equations are never reached from \<open>Equal\<close>.
\<close>

fun Updates_Equal :: "DependabotUpdate list \<Rightarrow> DependabotUpdate list \<Rightarrow> bool" where
  "Updates_Equal [] [] = True"
| "Updates_Equal (u # us) (v # vs) = (if \<not> Update_Equal u v then False else Updates_Equal us vs)"
| "Updates_Equal [] (v # vs) = False"
| "Updates_Equal (u # us) [] = False"

text \<open>\<open>DependabotConfig.Equal\<close> on two pointers, \<open>None\<close> being nil.\<close>

fun Equal :: "DependabotConfig option \<Rightarrow> DependabotConfig option \<Rightarrow> bool" where
  "Equal None None = True"
| "Equal None (Some other) = False"
| "Equal (Some c) None = False"
| "Equal (Some c) (Some other) =
     (if Version c \<noteq> Version other then False
      else if length (Updates c) \<noteq> length (Updates other) then False
      else Updates_Equal (Updates c) (Updates other))"

text \<open>The four fields of a rule that \<open>Equal\<close> looks at.\<close>

definition compared :: "DependabotUpdate \<Rightarrow> string \<times> string \<times> string \<times> int" where
  "compared u = (PackageEcosystem u, Directory u, Interval (Schedule u), OpenPullRequestsLimit u)"

section \<open>Merge engine (internal/merger)\<close>

subsection \<open>Helpers\<close>

definition isRootOnlyEcosystem :: "string \<Rightarrow> bool" where
  "isRootOnlyEcosystem ecosystem =
     (ecosystem = ''github-actions'' \<or> ecosystem = ''docker''
      \<or> ecosystem = ''terraform'' \<or> ecosystem = ''gitsubmodule'')"

text \<open>
  \<open>findUpdate\<close>: the first rule of the ecosystem, matched regardless of its directory for
  a root-only ecosystem (the function's own copy of the table is the one of
  \<open>isRootOnlyEcosystem\<close>), by exact directory otherwise; \<open>None\<close> is the nil result.
\<close>

fun findUpdate :: "DependabotUpdate list \<Rightarrow> string \<Rightarrow> string \<Rightarrow> DependabotUpdate option" where
  "findUpdate [] ecosystem directory = None"
| "findUpdate (u # updates) ecosystem directory =
     (if PackageEcosystem u = ecosystem then
        (if isRootOnlyEcosystem ecosystem then Some u
         else if Directory u = directory then Some u
         else findUpdate updates ecosystem directory)
      else findUpdate updates ecosystem directory)"

text \<open>
  One loop of \<open>mergeStringSlices\<close>: the state is the \<open>seen\<close> map (a missing key reads
  false) and the result slice.
\<close>

fun appendUnseen :: "string list \<Rightarrow> (string \<Rightarrow> bool) \<times> string list \<Rightarrow> (string \<Rightarrow> bool) \<times> string list" where
  "appendUnseen [] st = st"
| "appendUnseen (item # items) (seen, result) =
     (if \<not> seen item then appendUnseen items (seen(item := True), result @ [item])
      else appendUnseen items (seen, result))"

definition mergeStringSlices :: "string list \<Rightarrow> string list \<Rightarrow> string list" where
  "mergeStringSlices a b = snd (appendUnseen b (appendUnseen a (\<lambda>_. False, [])))"

text \<open>
  The words of the merge policy for labels, reviewers and assignees, for comparison:
  a list de-duplicated with the first occurrence kept, and the union that puts the
  existing items first and then the template items not already present.
\<close>

fun firstSeen :: "string list \<Rightarrow> string list" where
  "firstSeen [] = []"
| "firstSeen (x # xs) = x # removeAll x (firstSeen xs)"

definition unionExistingFirst :: "string list \<Rightarrow> string list \<Rightarrow> string list" where
  "unionExistingFirst a b = firstSeen a @ filter (\<lambda>x. x \<notin> set a) (firstSeen b)"

subsection \<open>mergeUpdate\<close>

text \<open>
  The loop over \<open>template.Groups\<close> assigns every template group into the merged map.
  Go visits the entries in an order of its choosing; \<open>rangeAssignGroups\<close> is the loop
  for the entries in one such order, and the map it ends with is the same for every order
  (lemma \<open>rangeAssignGroups_any_order\<close>).
\<close>

definition rangeAssignGroups :: "(string \<times> GroupConfig) list \<Rightarrow> (string \<times> GroupConfig) list \<Rightarrow> (string \<times> GroupConfig) list" where
  "rangeAssignGroups tgroups mgroups =
     foldl (\<lambda>groups (name, g). AList.update name g groups) mgroups tgroups"

text \<open>
  \<open>mergeUpdate\<close> returns a copy of the existing rule with fields replaced. In Go the copy
  shares the existing rule's map of groups when that is not nil, so the assignments of
  the loop are also seen in the existing rule and in every other rule merged from it;
  here each result has a group list of its own. This matters only for the groups of an
  existing rule that is merged with several template rules, and for the caller's document
  after the call; an existing rule that is carried forward was merged with no template
  rule, so its groups are as they were.
\<close>

definition mergeUpdate :: "DependabotUpdate \<Rightarrow> DependabotUpdate \<Rightarrow> DependabotUpdate" where
  "mergeUpdate existing template =
     (let merged = existing;
          merged = merged\<lparr>Schedule := Schedule template\<rparr>;
          merged = (if OpenPullRequestsLimit template > 0
                    then merged\<lparr>OpenPullRequestsLimit := OpenPullRequestsLimit template\<rparr>
                    else merged);
          merged = merged\<lparr>Labels := mergeStringSlices (Labels existing) (Labels template)\<rparr>;
          merged = merged\<lparr>Reviewers := mergeStringSlices (Reviewers existing) (Reviewers template)\<rparr>;
          merged = merged\<lparr>Assignees := mergeStringSlices (Assignees existing) (Assignees template)\<rparr>;
          merged = (if VersioningStrategy template \<noteq> []
                    then merged\<lparr>VersioningStrategy := VersioningStrategy template\<rparr>
                    else merged);
          merged = (if length (Groups template) > 0
                    then merged\<lparr>Groups := rangeAssignGroups (Groups template) (Groups merged)\<rparr>
                    else merged);
          merged = (if CommitMessage merged = None \<and> CommitMessage template \<noteq> None
                    then merged\<lparr>CommitMessage := CommitMessage template\<rparr>
                    else merged)
      in merged)"

text \<open>The Go zero value of a rule, on which the struct literals of the examples are built.\<close>

definition zeroUpdate :: DependabotUpdate where
  "zeroUpdate =
     \<lparr>PackageEcosystem = [], Directory = [],
      Schedule = \<lparr>Interval = [], Day = [], Time = [], Timezone = []\<rparr>,
      OpenPullRequestsLimit = 0, Labels = [], Reviewers = [], Assignees = [], Milestone = 0,
      Groups = [], VersioningStrategy = [], CommitMessage = None, TargetBranch = [],
      Vendor = False, Insecure = [], RebaseStrategy = [], Ignore = [], Allow = [],
      Registries = []\<rparr>"

subsection \<open>Detected ecosystems (internal/detector)\<close>

text \<open>
  The confidence is a \<open>float64\<close> that is only assigned from the catalog's literals and
  compared; the literals are 0.7, 0.8, 0.9 and 1.0, whose order as floats is their order
  as rationals.
\<close>

record Ecosystem =
  Name :: string
  Type :: string
  Directories :: "string list"
  Confidence :: rat

subsection \<open>sortUpdates\<close>

text \<open>The \<open>less\<close> closure handed to \<open>sort.Slice\<close>.\<close>

definition updateLess :: "DependabotUpdate \<Rightarrow> DependabotUpdate \<Rightarrow> bool" where
  "updateLess a b =
     (if PackageEcosystem a \<noteq> PackageEcosystem b then PackageEcosystem a < PackageEcosystem b
      else Directory a < Directory b)"

text \<open>
  \<open>sort.Slice\<close> is the Go library's; on slices of at most twelve elements it runs an
  insertion sort, which is the model here: every element in turn moves left past the
  elements it is less than. On longer slices the library leaves the order of rules that
  compare equal open; the theorems below on the order of the result use only that the
  result is sorted and a permutation.
\<close>

fun insertUpdate :: "DependabotUpdate \<Rightarrow> DependabotUpdate list \<Rightarrow> DependabotUpdate list" where
  "insertUpdate x [] = [x]"
| "insertUpdate x (y # ys) = (if updateLess x y then x # y # ys else y # insertUpdate x ys)"

definition sortUpdates :: "DependabotUpdate list \<Rightarrow> DependabotUpdate list" where
  "sortUpdates updates = foldl (\<lambda>sorted u. insertUpdate u sorted) [] updates"

subsection \<open>createFromTemplates\<close>

type_synonym templates = "string \<rightharpoonup> DependabotConfig"

text \<open>The basic rule made for a detected ecosystem that has no template.\<close>

definition basicUpdate :: "Ecosystem \<Rightarrow> string \<Rightarrow> DependabotUpdate" where
  "basicUpdate eco dir =
     zeroUpdate\<lparr>PackageEcosystem := Type eco, Directory := dir,
       Schedule := \<lparr>Interval = ''weekly'', Day = [], Time = [], Timezone = []\<rparr>,
       OpenPullRequestsLimit := 10, Labels := [''dependencies'']\<rparr>"

text \<open>The rules appended for one directory from a template: a copy of each template rule.\<close>

definition useTemplate :: "DependabotConfig \<Rightarrow> string \<Rightarrow> DependabotUpdate list" where
  "useTemplate template dir = map (\<lambda>tmplUpdate. tmplUpdate\<lparr>Directory := dir\<rparr>) (Updates template)"

text \<open>One iteration of the loop over the detected ecosystems; \<open>updates\<close> is \<open>cfg.Updates\<close>.\<close>

definition createEcosystem :: "templates \<Rightarrow> DependabotUpdate list \<Rightarrow> Ecosystem \<Rightarrow> DependabotUpdate list" where
  "createEcosystem tmpls updates eco =
     (case tmpls (Name eco) of
        None \<Rightarrow> foldl (\<lambda>updates dir. updates @ [basicUpdate eco dir]) updates (Directories eco)
      | Some template \<Rightarrow>
          foldl (\<lambda>updates dir. updates @ useTemplate template dir) updates (Directories eco))"

definition createFromTemplates :: "templates \<Rightarrow> Ecosystem list \<Rightarrow> DependabotConfig" where
  "createFromTemplates tmpls ecosystems =
     \<lparr>Version = 2, Updates = sortUpdates (foldl (createEcosystem tmpls) [] ecosystems)\<rparr>"

subsection \<open>Merge\<close>

text \<open>
  The rules appended for one directory of a detected ecosystem that has a template:
  the existing rule merged with every template rule when \<open>findUpdate\<close> finds one, the
  template's rules otherwise.
\<close>

definition mergeDirectory :: "DependabotUpdate list \<Rightarrow> DependabotConfig \<Rightarrow> Ecosystem \<Rightarrow> string \<Rightarrow> DependabotUpdate list" where
  "mergeDirectory existingUpdates template eco dir =
     (case findUpdate existingUpdates (Type eco) dir of
        Some existingUpdate \<Rightarrow>
          map (\<lambda>tmplUpdate.
                 (mergeUpdate existingUpdate tmplUpdate)
                   \<lparr>Directory := (if isRootOnlyEcosystem (Type eco) then ''/'' else dir)\<rparr>)
              (Updates template)
      | None \<Rightarrow> useTemplate template dir)"

text \<open>One iteration of the loop over the detected ecosystems; \<open>merged\<close> is \<open>merged.Updates\<close>.\<close>

definition mergeEcosystem :: "templates \<Rightarrow> DependabotUpdate list \<Rightarrow> DependabotUpdate list \<Rightarrow> Ecosystem \<Rightarrow> DependabotUpdate list" where
  "mergeEcosystem tmpls existingUpdates merged eco =
     (case tmpls (Name eco) of
        None \<Rightarrow> merged
      | Some template \<Rightarrow>
          foldl (\<lambda>merged dir. merged @ mergeDirectory existingUpdates template eco dir)
            merged (Directories eco))"

text \<open>
  The inner loop of the carry-forward part: whether some rule already in
  \<open>merged.Updates\<close> has the existing rule's ecosystem and, unless that is root-only,
  its directory.
\<close>

definition found :: "DependabotUpdate \<Rightarrow> DependabotUpdate list \<Rightarrow> bool" where
  "found existingUpdate merged =
     list_ex (\<lambda>mergedUpdate.
        if isRootOnlyEcosystem (PackageEcosystem existingUpdate)
        then PackageEcosystem mergedUpdate = PackageEcosystem existingUpdate
        else PackageEcosystem mergedUpdate = PackageEcosystem existingUpdate
             \<and> Directory mergedUpdate = Directory existingUpdate) merged"

text \<open>The directory normalisation of a carried rule.\<close>

definition normalizeRootOnly :: "DependabotUpdate \<Rightarrow> DependabotUpdate" where
  "normalizeRootOnly existingUpdate =
     (if isRootOnlyEcosystem (PackageEcosystem existingUpdate)
      then existingUpdate\<lparr>Directory := ''/''\<rparr> else existingUpdate)"

text \<open>
  One iteration of the carry-forward loop. \<open>merged\<close> is the list as it stands when the
  existing rule is reached: the rules made from the detected ecosystems and the existing
  rules carried before it.
\<close>

definition carryForward :: "DependabotUpdate list \<Rightarrow> DependabotUpdate \<Rightarrow> DependabotUpdate list" where
  "carryForward merged existingUpdate =
     (if \<not> found existingUpdate merged then merged @ [normalizeRootOnly existingUpdate]
      else merged)"

text \<open>
  \<open>Merger.Merge\<close>; the receiver's template map is the first argument, a nil
  \<open>existing\<close> is \<open>None\<close>.
\<close>

fun Merge :: "templates \<Rightarrow> DependabotConfig option \<Rightarrow> Ecosystem list \<Rightarrow> DependabotConfig" where
  "Merge tmpls None ecosystems = createFromTemplates tmpls ecosystems"
| "Merge tmpls (Some existing) ecosystems =
     (let merged = foldl (mergeEcosystem tmpls (Updates existing)) [] ecosystems;
          merged = foldl carryForward merged (Updates existing)
      in \<lparr>Version = 2, Updates = sortUpdates merged\<rparr>)"

subsection \<open>Identity of a rule and well-formed inputs\<close>

text \<open>The pair that identifies a rule within a document, ordered lexicographically.\<close>

definition ruleKey :: "DependabotUpdate \<Rightarrow> string \<times> string" where
  "ruleKey u = (PackageEcosystem u, Directory u)"

text \<open>
  A detected ecosystem is placed at the root when all its directories are "/". The
  paths of \<open>Merge\<close> that copy a detected directory into a rule give a root-only rule
  the directory "/" when every detected ecosystem that is root-only, or whose template
  has a rule for a root-only ecosystem, is placed at the root.
\<close>

definition rootOnlyAtRoot :: "templates \<Rightarrow> Ecosystem \<Rightarrow> bool" where
  "rootOnlyAtRoot tmpls eco =
     (list_all (\<lambda>dir. dir = ''/'') (Directories eco)
      \<or> (\<not> isRootOnlyEcosystem (Type eco)
          \<and> (case tmpls (Name eco) of
                None \<Rightarrow> True
              | Some template \<Rightarrow>
                  list_all (\<lambda>tmplUpdate. \<not> isRootOnlyEcosystem (PackageEcosystem tmplUpdate))
                    (Updates template))))"

text \<open>
  Inputs as the detector and a one-rule-per-ecosystem template directory give them:
  the detected ecosystems have pairwise different types, each with a duplicate-free
  directory list that is just "/" for a root-only type, and the template of a detected
  ecosystem holds at most one rule, for that ecosystem's type.
\<close>

definition wellFormedEcosystem :: "templates \<Rightarrow> Ecosystem \<Rightarrow> bool" where
  "wellFormedEcosystem tmpls eco =
     (distinct (Directories eco)
      \<and> (\<not> isRootOnlyEcosystem (Type eco) \<or> list_all (\<lambda>dir. dir = ''/'') (Directories eco))
      \<and> (case tmpls (Name eco) of
            None \<Rightarrow> True
          | Some template \<Rightarrow>
              length (Updates template) \<le> 1
              \<and> list_all (\<lambda>tmplUpdate. PackageEcosystem tmplUpdate = Type eco) (Updates template)))"

definition wellFormedInputs :: "templates \<Rightarrow> Ecosystem list \<Rightarrow> bool" where
  "wellFormedInputs tmpls ecosystems =
     (distinct (map Type ecosystems) \<and> list_all (wellFormedEcosystem tmpls) ecosystems)"

text \<open>
  A rule that has the four fields \<open>Equal\<close> compares from \<open>u\<close> and every other field
  from \<open>w\<close>.
\<close>

definition withOtherFields :: "DependabotUpdate \<Rightarrow> DependabotUpdate \<Rightarrow> DependabotUpdate" where
  "withOtherFields u w =
     w\<lparr>PackageEcosystem := PackageEcosystem u, Directory := Directory u,
       Schedule := (Schedule w)\<lparr>Interval := Interval (Schedule u)\<rparr>,
       OpenPullRequestsLimit := OpenPullRequestsLimit u\<rparr>"

subsection \<open>The rules made for one detected ecosystem\<close>

text \<open>
  What one iteration of the loops over the detected ecosystems appends, in
  \<open>createFromTemplates\<close> and in \<open>Merge\<close> (lemmas \<open>createEcosystem_append\<close> and
  \<open>mergeEcosystem_append\<close>).
\<close>

definition createRules :: "templates \<Rightarrow> Ecosystem \<Rightarrow> DependabotUpdate list" where
  "createRules tmpls eco =
     (case tmpls (Name eco) of
        None \<Rightarrow> map (basicUpdate eco) (Directories eco)
      | Some template \<Rightarrow> concat (map (useTemplate template) (Directories eco)))"

definition mergeRules :: "templates \<Rightarrow> DependabotUpdate list \<Rightarrow> Ecosystem \<Rightarrow> DependabotUpdate list" where
  "mergeRules tmpls existingUpdates eco =
     (case tmpls (Name eco) of
        None \<Rightarrow> []
      | Some template \<Rightarrow> concat (map (mergeDirectory existingUpdates template eco) (Directories eco)))"

subsection \<open>Predicates used in the statements\<close>

text \<open>
  The test of the carry-forward loop between an existing rule and one merged rule, and
  the property that a rule of a root-only ecosystem sits at "/".
\<close>

definition covers :: "DependabotUpdate \<Rightarrow> DependabotUpdate \<Rightarrow> bool" where
  "covers existingUpdate mergedUpdate =
     (if isRootOnlyEcosystem (PackageEcosystem existingUpdate)
      then PackageEcosystem mergedUpdate = PackageEcosystem existingUpdate
      else PackageEcosystem mergedUpdate = PackageEcosystem existingUpdate
           \<and> Directory mergedUpdate = Directory existingUpdate)"

definition rootNormal :: "DependabotUpdate \<Rightarrow> bool" where
  "rootNormal u = (\<not> isRootOnlyEcosystem (PackageEcosystem u) \<or> Directory u = ''/'')"

text \<open>The rule that \<open>mergeDirectory\<close> makes from one template rule.\<close>

definition mergeOne :: "DependabotUpdate list \<Rightarrow> Ecosystem \<Rightarrow> DependabotUpdate \<Rightarrow> string \<Rightarrow> DependabotUpdate" where
  "mergeOne existingUpdates eco tmplUpdate dir =
     (case findUpdate existingUpdates (Type eco) dir of
        Some existingUpdate \<Rightarrow>
          (mergeUpdate existingUpdate tmplUpdate)
            \<lparr>Directory := (if isRootOnlyEcosystem (Type eco) then ''/'' else dir)\<rparr>
      | None \<Rightarrow> tmplUpdate\<lparr>Directory := dir\<rparr>)"

text \<open>
  An ecosystem tag is absent from the detected ecosystems and their templates when no
  detected ecosystem has it as its type and no rule of a detected ecosystem's template
  is for it.
\<close>

definition ecosystemAbsent :: "templates \<Rightarrow> Ecosystem list \<Rightarrow> string \<Rightarrow> bool" where
  "ecosystemAbsent tmpls ecosystems e =
     list_all (\<lambda>eco. Type eco \<noteq> e
        \<and> (case tmpls (Name eco) of
              None \<Rightarrow> True
            | Some template \<Rightarrow> list_all (\<lambda>tmplUpdate. PackageEcosystem tmplUpdate \<noteq> e) (Updates template)))
       ecosystems"

subsection \<open>Values for the examples\<close>

definition weekly :: Schedule where
  "weekly = \<lparr>Interval = ''weekly'', Day = [], Time = [], Timezone = []\<rparr>"

definition daily :: Schedule where
  "daily = \<lparr>Interval = ''daily'', Day = [], Time = [], Timezone = []\<rparr>"

text \<open>A detected ecosystem as the detector builds it: name and type are the catalog's tag.\<close>

definition detected :: "string \<Rightarrow> string list \<Rightarrow> rat \<Rightarrow> Ecosystem" where
  "detected tag dirs c = \<lparr>Name = tag, Type = tag, Directories = dirs, Confidence = c\<rparr>"

definition rule :: "string \<Rightarrow> string \<Rightarrow> Schedule \<Rightarrow> int \<Rightarrow> DependabotUpdate" where
  "rule tag dir sched limit =
     zeroUpdate\<lparr>PackageEcosystem := tag, Directory := dir, Schedule := sched,
       OpenPullRequestsLimit := limit\<rparr>"

definition document :: "DependabotUpdate list \<Rightarrow> DependabotConfig" where
  "document us = \<lparr>Version = 2, Updates = us\<rparr>"

text \<open>
  A rule list is up to date with the templates of the detected ecosystems when, for
  every directory of a detected ecosystem whose template has one rule, it has a rule
  of that ecosystem and directory with the template's schedule interval and, where the
  template's limit is positive, the template's limit.
\<close>

definition upToDate :: "templates \<Rightarrow> Ecosystem list \<Rightarrow> DependabotUpdate list \<Rightarrow> bool" where
  "upToDate tmpls ecosystems us =
     (\<forall>eco\<in>set ecosystems. \<forall>t tu. tmpls (Name eco) = Some t \<longrightarrow> Updates t = [tu] \<longrightarrow>
        (\<forall>dir\<in>set (Directories eco). \<exists>p\<in>set us. ruleKey p = (Type eco, dir)
            \<and> Interval (Schedule p) = Interval (Schedule tu)
            \<and> (OpenPullRequestsLimit tu > 0 \<longrightarrow> OpenPullRequestsLimit p = OpenPullRequestsLimit tu)))"

section \<open>Ecosystem detector (internal/detector)\<close>

subsection \<open>Path functions of the Go library\<close>

text \<open>
  \<open>path/filepath\<close> with the separator "/". \<open>Clean\<close> drops empty and "." elements,
  resolves ".." against the element before it (dropping it at the root, keeping it at
  the start of a relative path), and gives "." for an empty result.
\<close>

fun splitPath :: "string \<Rightarrow> string list" where
  "splitPath [] = [[]]"
| "splitPath (c # cs) =
     (if c = CHR ''/'' then [] # splitPath cs
      else (case splitPath cs of [] \<Rightarrow> [[c]] | x # xs \<Rightarrow> (c # x) # xs))"

fun joinPath :: "string list \<Rightarrow> string" where
  "joinPath [] = []"
| "joinPath [x] = x"
| "joinPath (x # y # ys) = x @ ''/'' @ joinPath (y # ys)"

text \<open>The elements kept so far are held last first.\<close>

fun cleanElements :: "bool \<Rightarrow> string list \<Rightarrow> string list \<Rightarrow> string list" where
  "cleanElements rooted kept [] = rev kept"
| "cleanElements rooted kept (e # es) =
     (if e = [] \<or> e = ''.'' then cleanElements rooted kept es
      else if e = ''..'' then
        (case kept of
           [] \<Rightarrow> if rooted then cleanElements rooted [] es else cleanElements rooted [e] es
         | k # ks \<Rightarrow> if k = ''..'' then cleanElements rooted (e # kept) es
                     else cleanElements rooted ks es)
      else cleanElements rooted (e # kept) es)"

definition Clean :: "string \<Rightarrow> string" where
  "Clean path =
     (let rooted = (take 1 path = ''/'');
          out = (if rooted then ''/'' else []) @ joinPath (cleanElements rooted [] (splitPath path))
      in if out = [] then ''.'' else out)"

text \<open>\<open>filepath.Dir\<close>: the path up to and including its last separator, cleaned.\<close>

definition Dir :: "string \<Rightarrow> string" where
  "Dir path = Clean (rev (dropWhile (\<lambda>c. c \<noteq> CHR ''/'') (rev path)))"

text \<open>
  \<open>filepath.Base\<close>: the last element, after the trailing separators are removed; "."
  for the empty path and "/" for a path of separators only.
\<close>

definition Base :: "string \<Rightarrow> string" where
  "Base path =
     (if path = [] then ''.''
      else (let stripped = rev (dropWhile (\<lambda>c. c = CHR ''/'') (rev path));
                last_element = rev (takeWhile (\<lambda>c. c \<noteq> CHR ''/'') (rev stripped))
            in if last_element = [] then ''/'' else last_element))"

text \<open>
  \<open>filepath.Match\<close> for the patterns of the catalog, which are made of literal
  characters and "*": a "*" stands for any run of characters other than "/", and the
  whole name has to be matched ("?" is any one character other than "/"). Character
  classes and escapes do not occur in the catalog and are not modelled. For these
  patterns \<open>Match\<close> returns no error, so \<open>matchesPattern\<close> drops none.
\<close>

fun Match :: "string \<Rightarrow> string \<Rightarrow> bool" where
  "Match [] name = (name = [])"
| "Match (p # ps) [] = (p = CHR ''*'' \<and> Match ps [])"
| "Match (p # ps) (c # cs) =
     (if p = CHR ''*'' then Match ps (c # cs) \<or> (c \<noteq> CHR ''/'' \<and> Match (p # ps) cs)
      else if p = CHR ''?'' then c \<noteq> CHR ''/'' \<and> Match ps cs
      else p = c \<and> Match ps cs)"

subsection \<open>Helpers of the detector\<close>

definition extractDirectory :: "string \<Rightarrow> string" where
  "extractDirectory path =
     (let dir = Dir path
      in if dir = ''.'' then ''/''
         else if take 1 dir \<noteq> ''/'' then ''/'' @ dir
         else dir)"

definition matchesPattern :: "string \<Rightarrow> string \<Rightarrow> bool" where
  "matchesPattern path pattern =
     (if CHR ''*'' \<in> set pattern then
        (if Match pattern (Base path) then True else Match pattern path)
      else Base path = pattern \<or> path = pattern)"

fun appendUnique :: "string list \<Rightarrow> string \<Rightarrow> string list" where
  "appendUnique slice item = (if list_ex (\<lambda>existing. existing = item) slice then slice else slice @ [item])"

subsection \<open>The indicator catalog\<close>

record indicator =
  filePattern :: string
  confidence :: rat

definition ind :: "string \<Rightarrow> rat \<Rightarrow> indicator" where
  "ind f c = \<lparr>filePattern = f, confidence = c\<rparr>"

text \<open>
  The map literal \<open>indicators\<close> of \<open>Detect\<close>, as the list of its entries in the order
  of the source. Go ranges over the map in an order of its choosing; the loop over it
  changes, for each tag, only that tag's entry of \<open>ecosystems\<close>, so the order has no
  effect (lemma \<open>scanFile_any_order\<close>).
\<close>

definition indicators :: "(string \<times> indicator list) list" where
  "indicators =
     [(''npm'', [ind ''package-lock.json'' 1, ind ''yarn.lock'' 1, ind ''pnpm-lock.yaml'' 1,
                 ind ''package.json'' (8/10)]),
      (''gomod'', [ind ''go.sum'' 1, ind ''go.mod'' (9/10)]),
      (''pip'', [ind ''poetry.lock'' 1, ind ''Pipfile.lock'' 1, ind ''requirements.txt'' (8/10),
                 ind ''setup.py'' (7/10), ind ''pyproject.toml'' (9/10)]),
      (''docker'', [ind ''Dockerfile'' (9/10), ind ''docker-compose.yml'' (8/10),
                    ind ''docker-compose.yaml'' (8/10), ind ''Dockerfile.*'' (9/10)]),
      (''maven'', [ind ''pom.xml'' (9/10)]),
      (''gradle'', [ind ''gradle.lock'' 1, ind ''build.gradle'' (8/10), ind ''build.gradle.kts'' (8/10)]),
      (''bundler'', [ind ''Gemfile.lock'' 1, ind ''Gemfile'' (8/10)]),
      (''cargo'', [ind ''Cargo.lock'' 1, ind ''Cargo.toml'' (8/10)]),
      (''composer'', [ind ''composer.lock'' 1, ind ''composer.json'' (8/10)]),
      (''nuget'', [ind ''packages.config'' (8/10), ind ''*.csproj'' (7/10), ind ''*.fsproj'' (7/10),
                   ind ''*.vbproj'' (7/10)]),
      (''github-actions'', [ind ''.github/workflows/*.yml'' (9/10),
                            ind ''.github/workflows/*.yaml'' (9/10)]),
      (''terraform'', [ind ''*.tf'' (8/10), ind ''.terraform.lock.hcl'' 1]),
      (''elm'', [ind ''elm.json'' (9/10), ind ''elm-package.json'' (8/10)]),
      (''gitsubmodule'', [ind ''.gitmodules'' (9/10)]),
      (''pub'', [ind ''pubspec.yaml'' (9/10), ind ''pubspec.lock'' 1]),
      (''hex'', [ind ''mix.exs'' (9/10), ind ''mix.lock'' 1])]"

subsection \<open>Detect\<close>

text \<open>An entry of the Git tree; both fields are nilable pointers.\<close>

record TreeEntry =
  Entry_Type :: "string option"
  Entry_Path :: "string option"

text \<open>The one failure of \<open>Detect\<close>: the tree request failed, with the cause wrapped.\<close>

datatype 'cause detect_error = FailedToGetTree 'cause

text \<open>
  The body of the innermost \<open>if\<close>: the entry of the tag after a match of \<open>indicator\<close>,
  from the entry before it (\<open>None\<close> when the tag is not in the map yet).
\<close>

definition recordMatch :: "string \<Rightarrow> string \<Rightarrow> indicator \<Rightarrow> Ecosystem option \<Rightarrow> Ecosystem" where
  "recordMatch ecosystem dir indicator current =
     (let eco = (case current of
                   None \<Rightarrow> \<lparr>Name = ecosystem, Type = ecosystem, Directories = [],
                             Confidence = confidence indicator\<rparr>
                 | Some eco \<Rightarrow>
                     if confidence indicator > Confidence eco
                     then eco\<lparr>Confidence := confidence indicator\<rparr> else eco);
          directory = (if ecosystem = ''docker'' \<or> ecosystem = ''github-actions''
                          \<or> ecosystem = ''terraform'' \<or> ecosystem = ''gitsubmodule''
                       then ''/'' else dir)
      in eco\<lparr>Directories := appendUnique (Directories eco) directory\<rparr>)"

definition scanIndicator :: "string \<Rightarrow> string \<Rightarrow> string \<Rightarrow> indicator \<Rightarrow> (string \<rightharpoonup> Ecosystem) \<Rightarrow> (string \<rightharpoonup> Ecosystem)" where
  "scanIndicator path dir ecosystem indicator ecosystems =
     (if matchesPattern path (filePattern indicator)
      then ecosystems(ecosystem \<mapsto> recordMatch ecosystem dir indicator (ecosystems ecosystem))
      else ecosystems)"

definition scanEcosystem :: "string \<Rightarrow> string \<Rightarrow> string \<times> indicator list \<Rightarrow> (string \<rightharpoonup> Ecosystem) \<Rightarrow> (string \<rightharpoonup> Ecosystem)" where
  "scanEcosystem path dir entry ecosystems =
     fold (scanIndicator path dir (fst entry)) (snd entry) ecosystems"

text \<open>The loop over the catalog for one file, the catalog entries taken in the given order.\<close>

definition scanFile :: "(string \<times> indicator list) list \<Rightarrow> string \<Rightarrow> (string \<rightharpoonup> Ecosystem) \<Rightarrow> (string \<rightharpoonup> Ecosystem)" where
  "scanFile catalog path ecosystems = fold (scanEcosystem path (extractDirectory path)) catalog ecosystems"

definition scanEntry :: "TreeEntry \<Rightarrow> (string \<rightharpoonup> Ecosystem) \<Rightarrow> (string \<rightharpoonup> Ecosystem)" where
  "scanEntry entry ecosystems =
     (if Entry_Type entry = Some ''blob'' then
        (case Entry_Path entry of
           None \<Rightarrow> ecosystems
         | Some path \<Rightarrow> scanFile indicators path ecosystems)
      else ecosystems)"

text \<open>
  The sort by confidence. \<open>raiseHighest x ys\<close> is the inner loop for one \<open>i\<close>, with
  \<open>result[i] = x\<close> and \<open>ys\<close> the elements after it: every later element of strictly
  higher confidence is swapped into place \<open>i\<close>.
\<close>

fun raiseHighest :: "Ecosystem \<Rightarrow> Ecosystem list \<Rightarrow> Ecosystem \<times> Ecosystem list" where
  "raiseHighest x [] = (x, [])"
| "raiseHighest x (y # ys) =
     (if Confidence y > Confidence x
      then (case raiseHighest y ys of (highest, rest) \<Rightarrow> (highest, x # rest))
      else (case raiseHighest x ys of (highest, rest) \<Rightarrow> (highest, y # rest)))"

text \<open>
  The outer loop, for \<open>i\<close> from 0 while \<open>i < len(result)-1\<close>: \<open>sortFrom n\<close> runs \<open>n\<close>
  iterations on the part of the slice that starts at \<open>i\<close>.
\<close>

fun sortFrom :: "nat \<Rightarrow> Ecosystem list \<Rightarrow> Ecosystem list" where
  "sortFrom 0 result = result"
| "sortFrom (Suc n) [] = []"
| "sortFrom (Suc n) (x # xs) = (case raiseHighest x xs of (highest, rest) \<Rightarrow> highest # sortFrom n rest)"

definition sortByConfidence :: "Ecosystem list \<Rightarrow> Ecosystem list" where
  "sortByConfidence result = sortFrom (length result - 1) result"

text \<open>
  \<open>Detect\<close>. The tree is the result of the request to the Git API, an error or the
  entries. \<open>rangeOrder\<close> is the order in which Go ranges over the map \<open>ecosystems\<close> when
  it collects the result: an enumeration of the catalog's tags, of which those present
  in the map are visited in that order.
\<close>

definition Detect :: "string list \<Rightarrow> 'cause + TreeEntry list \<Rightarrow> 'cause detect_error + Ecosystem list" where
  "Detect rangeOrder tree =
     (case tree of
        Inl err \<Rightarrow> Inl (FailedToGetTree err)
      | Inr entries \<Rightarrow>
          (let ecosystems = fold scanEntry entries Map.empty;
               result = List.map_filter ecosystems rangeOrder
           in Inr (sortByConfidence result)))"

text \<open>An order in which the map can be ranged over: every tag of the catalog once.\<close>

definition validRangeOrder :: "string list \<Rightarrow> bool" where
  "validRangeOrder rangeOrder = (distinct rangeOrder \<and> set rangeOrder = set (map fst indicators))"

definition blob :: "string \<Rightarrow> TreeEntry" where
  "blob path = \<lparr>Entry_Type = Some ''blob'', Entry_Path = Some path\<rparr>"

text \<open>
  The weights of the indicators of a tag that some file of the tree matches; files are the
  entries of type blob with a path.
\<close>

definition blobPaths :: "TreeEntry list \<Rightarrow> string list" where
  "blobPaths entries =
     List.map_filter (\<lambda>entry. if Entry_Type entry = Some ''blob'' then Entry_Path entry else None) entries"

definition matchedWeights :: "string \<Rightarrow> TreeEntry list \<Rightarrow> rat list" where
  "matchedWeights tag entries =
     concat (map (\<lambda>path.
        case map_of indicators tag of
          None \<Rightarrow> []
        | Some files \<Rightarrow>
            map confidence (filter (\<lambda>indicator. matchesPattern path (filePattern indicator)) files))
       (blobPaths entries))"

text \<open>
  What the loop over the indicators of one tag does to that tag's entry of the map, and
  the aggregation of the confidence it amounts to.
\<close>

definition scanLocal :: "string \<Rightarrow> string \<Rightarrow> string \<Rightarrow> indicator list \<Rightarrow> Ecosystem option \<Rightarrow> Ecosystem option" where
  "scanLocal path dir ecosystem files current =
     fold (\<lambda>indicator current.
             if matchesPattern path (filePattern indicator)
             then Some (recordMatch ecosystem dir indicator current) else current)
       files current"

definition maxWeight :: "rat \<Rightarrow> rat option \<Rightarrow> rat option" where
  "maxWeight w current = Some (case current of None \<Rightarrow> w | Some c \<Rightarrow> max c w)"

definition pathWeights :: "string \<Rightarrow> string \<Rightarrow> rat list" where
  "pathWeights tag path =
     (case map_of indicators tag of
        None \<Rightarrow> []
      | Some files \<Rightarrow>
          map confidence (filter (\<lambda>indicator. matchesPattern path (filePattern indicator)) files))"




section \<open>Properties\<close>

subsection \<open>Document equality\<close>

lemma Updates_Equal_compared:
  "length us = length vs \<Longrightarrow> Updates_Equal us vs = (map compared us = map compared vs)"
  by (induction us vs rule: Updates_Equal.induct) (auto simp: Update_Equal_def compared_def)

lemma Equal_compared:
  "Equal (Some c) (Some d) = (Version c = Version d \<and> map compared (Updates c) = map compared (Updates d))"
proof (cases "length (Updates c) = length (Updates d)")
  case True
  then show ?thesis by (simp add: Updates_Equal_compared)
next
  case False
  then have "map compared (Updates c) \<noteq> map compared (Updates d)"
    by (metis length_map)
  with False show ?thesis by simp
qed

subsection \<open>String-slice union\<close>

lemma filter_removeAll_seen:
  "x \<in> A \<Longrightarrow> filter (\<lambda>y. y \<notin> A) (removeAll x ys) = filter (\<lambda>y. y \<notin> A) ys"
  by (induction ys) auto

lemma filter_snoc_removeAll:
  "filter (\<lambda>y. y \<notin> set (rs @ [x])) ys = filter (\<lambda>y. y \<notin> set rs) (removeAll x ys)"
  by (induction ys) auto

lemma appendUnseen_inv:
  "seen = (\<lambda>x. x \<in> set result) \<Longrightarrow>
   appendUnseen items (seen, result) =
     ((\<lambda>x. x \<in> set result \<union> set items), result @ filter (\<lambda>x. x \<notin> set result) (firstSeen items))"
proof (induction items arbitrary: seen result)
  case Nil
  then show ?case by simp
next
  case (Cons item items)
  show ?case
  proof (cases "item \<in> set result")
    case True
    have "filter (\<lambda>x. x \<notin> set result) (removeAll item (firstSeen items))
          = filter (\<lambda>x. x \<notin> set result) (firstSeen items)"
      using True by (rule filter_removeAll_seen)
    with True Cons show ?thesis by (auto intro!: ext)
  next
    case False
    have upd: "seen(item := True) = (\<lambda>x. x \<in> set (result @ [item]))"
      using Cons.prems by (auto intro!: ext split: if_splits)
    have flt: "filter (\<lambda>x. x \<notin> set (result @ [item])) (firstSeen items)
          = filter (\<lambda>x. x \<notin> set result) (removeAll item (firstSeen items))"
      by (rule filter_snoc_removeAll)
    from False Cons.prems have "appendUnseen (item # items) (seen, result)
          = appendUnseen items (seen(item := True), result @ [item])" by simp
    also have "\<dots> = ((\<lambda>x. x \<in> set (result @ [item]) \<union> set items),
          (result @ [item]) @ filter (\<lambda>x. x \<notin> set (result @ [item])) (firstSeen items))"
      by (rule Cons.IH [OF upd])
    finally show ?thesis using False flt by (auto intro!: ext)
  qed
qed

lemma mergeStringSlices_union: "mergeStringSlices a b = unionExistingFirst a b"
proof -
  have a: "appendUnseen a (\<lambda>_. False, []) = ((\<lambda>x. x \<in> set a), firstSeen a)"
    using appendUnseen_inv [of "\<lambda>_. False" "[]" a] by simp
  have s: "set (firstSeen a) = set a" by (induction a) auto
  have "appendUnseen b ((\<lambda>x. x \<in> set a), firstSeen a)
        = ((\<lambda>x. x \<in> set (firstSeen a) \<union> set b),
           firstSeen a @ filter (\<lambda>x. x \<notin> set (firstSeen a)) (firstSeen b))"
    by (rule appendUnseen_inv) (simp add: s)
  with a s show ?thesis by (simp add: mergeStringSlices_def unionExistingFirst_def)
qed

lemma set_firstSeen: "set (firstSeen xs) = set xs"
  by (induction xs) auto

lemma distinct_firstSeen: "distinct (firstSeen xs)"
  by (induction xs) (auto simp: distinct_removeAll)

lemma firstSeen_distinct: "distinct xs \<Longrightarrow> firstSeen xs = xs"
  by (induction xs) (auto simp: set_firstSeen)

lemma compared_withOtherFields: "compared (withOtherFields u w) = compared u"
  by (simp add: compared_def withOtherFields_def)

text \<open>
  Claim C10. \<open>Equal\<close> on two documents holds exactly when the schema versions are equal
  and the rule lists agree, position by position (so also in length), on ecosystem,
  directory, schedule interval and open-PR limit. Replacing every other field of every
  rule (labels, reviewers, assignees, schedule day, time and timezone, groups, versioning
  strategy, commit message, target branch, vendor flag, ignore and allow rules,
  registries, ...) by arbitrary values gives a document that \<open>Equal\<close> accepts.
\<close>

theorem Equal_coarse:
  "Equal (Some c) (Some d) =
     (Version c = Version d \<and> map compared (Updates c) = map compared (Updates d))
   \<and> Equal (Some c)
        (Some \<lparr>Version = Version c, Updates = map (\<lambda>u. withOtherFields u (f u)) (Updates c)\<rparr>)"
proof -
  have "map compared (map (\<lambda>u. withOtherFields u (f u)) (Updates c)) = map compared (Updates c)"
    by (simp add: compared_withOtherFields)
  then show ?thesis
    using Equal_compared [of c d]
      Equal_compared [of c "\<lparr>Version = Version c, Updates = map (\<lambda>u. withOtherFields u (f u)) (Updates c)\<rparr>"]
    by simp
qed

theorem Equal_coarse_witness:
  "Equal (Some \<lparr>Version = 2, Updates = [zeroUpdate\<lparr>Labels := [''a'']\<rparr>]\<rparr>)
         (Some \<lparr>Version = 2, Updates = [zeroUpdate\<lparr>TargetBranch := ''develop'', Vendor := True\<rparr>]\<rparr>)"
  using Equal_coarse [of "\<lparr>Version = 2, Updates = [zeroUpdate\<lparr>Labels := [''a'']\<rparr>]\<rparr>"
      "\<lparr>Version = 2, Updates = [zeroUpdate\<lparr>TargetBranch := ''develop'', Vendor := True\<rparr>]\<rparr>"]
  by (simp add: compared_def zeroUpdate_def Update_Equal_def)

subsection \<open>Field-level merge policy\<close>

text \<open>
  Claim C6. In the rule that \<open>mergeUpdate\<close> returns, directory, target branch and vendor
  flag are the existing rule's, the schedule is the template's, and the open-PR limit is
  the template's when that is positive and the existing rule's otherwise.
\<close>

theorem mergeUpdate_policy:
  "Directory (mergeUpdate e t) = Directory e
   \<and> TargetBranch (mergeUpdate e t) = TargetBranch e
   \<and> Vendor (mergeUpdate e t) = Vendor e
   \<and> Schedule (mergeUpdate e t) = Schedule t
   \<and> OpenPullRequestsLimit (mergeUpdate e t) =
       (if OpenPullRequestsLimit t > 0 then OpenPullRequestsLimit t else OpenPullRequestsLimit e)"
  by (simp add: mergeUpdate_def Let_def)

text \<open>
  The example of the specification: existing rule npm at "/" with target branch
  "develop" and the vendor flag, template npm with limit 10 and a weekly schedule.
\<close>

theorem mergeUpdate_policy_witness:
  "TargetBranch (mergeUpdate
      (zeroUpdate\<lparr>PackageEcosystem := ''npm'', Directory := ''/'', TargetBranch := ''develop'', Vendor := True\<rparr>)
      (zeroUpdate\<lparr>PackageEcosystem := ''npm'', OpenPullRequestsLimit := 10,
         Schedule := (Schedule zeroUpdate)\<lparr>Interval := ''weekly''\<rparr>\<rparr>)) = ''develop''
   \<and> Vendor (mergeUpdate
      (zeroUpdate\<lparr>PackageEcosystem := ''npm'', Directory := ''/'', TargetBranch := ''develop'', Vendor := True\<rparr>)
      (zeroUpdate\<lparr>PackageEcosystem := ''npm'', OpenPullRequestsLimit := 10,
         Schedule := (Schedule zeroUpdate)\<lparr>Interval := ''weekly''\<rparr>\<rparr>)) = True
   \<and> Interval (Schedule (mergeUpdate
      (zeroUpdate\<lparr>PackageEcosystem := ''npm'', Directory := ''/'', TargetBranch := ''develop'', Vendor := True\<rparr>)
      (zeroUpdate\<lparr>PackageEcosystem := ''npm'', OpenPullRequestsLimit := 10,
         Schedule := (Schedule zeroUpdate)\<lparr>Interval := ''weekly''\<rparr>\<rparr>))) = ''weekly''
   \<and> OpenPullRequestsLimit (mergeUpdate
      (zeroUpdate\<lparr>PackageEcosystem := ''npm'', Directory := ''/'', TargetBranch := ''develop'', Vendor := True\<rparr>)
      (zeroUpdate\<lparr>PackageEcosystem := ''npm'', OpenPullRequestsLimit := 10,
         Schedule := (Schedule zeroUpdate)\<lparr>Interval := ''weekly''\<rparr>\<rparr>)) = 10"
  using mergeUpdate_policy [of
      "zeroUpdate\<lparr>PackageEcosystem := ''npm'', Directory := ''/'', TargetBranch := ''develop'', Vendor := True\<rparr>"
      "zeroUpdate\<lparr>PackageEcosystem := ''npm'', OpenPullRequestsLimit := 10,
         Schedule := (Schedule zeroUpdate)\<lparr>Interval := ''weekly''\<rparr>\<rparr>"]
  by (simp add: zeroUpdate_def)

subsection \<open>Labels, reviewers and assignees\<close>

text \<open>
  Claim C8. \<open>mergeUpdate\<close> makes each of the labels, reviewers and assignees lists the
  union of the existing and the template list: the existing items first, then the
  template items not already present, without duplicates, every item at the place of its
  first occurrence.
\<close>

theorem mergeUpdate_lists_union:
  "Labels (mergeUpdate e t) = unionExistingFirst (Labels e) (Labels t)
   \<and> Reviewers (mergeUpdate e t) = unionExistingFirst (Reviewers e) (Reviewers t)
   \<and> Assignees (mergeUpdate e t) = unionExistingFirst (Assignees e) (Assignees t)
   \<and> distinct (Labels (mergeUpdate e t))
   \<and> set (Labels (mergeUpdate e t)) = set (Labels e) \<union> set (Labels t)"
proof -
  have d: "distinct (unionExistingFirst a b)" for a b
    by (auto simp: unionExistingFirst_def distinct_firstSeen set_firstSeen)
  have s: "set (unionExistingFirst a b) = set a \<union> set b" for a b
    by (auto simp: unionExistingFirst_def set_firstSeen)
  show ?thesis
    by (simp add: mergeUpdate_def Let_def mergeStringSlices_union d s)
qed

text \<open>The example of the specification: labels dependencies, custom and automated, npm.\<close>

theorem mergeUpdate_lists_union_witness:
  "Labels (mergeUpdate (zeroUpdate\<lparr>Labels := [''dependencies'', ''custom'']\<rparr>)
                       (zeroUpdate\<lparr>Labels := [''automated'', ''npm'']\<rparr>))
     = [''dependencies'', ''custom'', ''automated'', ''npm'']"
  using mergeUpdate_lists_union [of "zeroUpdate\<lparr>Labels := [''dependencies'', ''custom'']\<rparr>"
      "zeroUpdate\<lparr>Labels := [''automated'', ''npm'']\<rparr>"]
  by (simp add: zeroUpdate_def unionExistingFirst_def)

subsection \<open>The groups loop in any order\<close>



subsection \<open>Sorting\<close>

lemma updateLess_key: "updateLess a b = (ruleKey a < ruleKey b)"
  by (auto simp: updateLess_def ruleKey_def less_prod_def')

lemma mset_insertUpdate: "mset (insertUpdate x ys) = add_mset x (mset ys)"
  by (induction ys) auto

lemma set_insertUpdate: "set (insertUpdate x ys) = insert x (set ys)"
  by (induction ys) auto

lemma sorted_insertUpdate:
  "sorted (map ruleKey ys) \<Longrightarrow> sorted (map ruleKey (insertUpdate x ys))"
  by (induction ys) (auto simp: updateLess_key set_insertUpdate)

lemma foldl_insertUpdate:
  "mset (foldl (\<lambda>sorted u. insertUpdate u sorted) acc us) = mset acc + mset us
   \<and> (sorted (map ruleKey acc) \<longrightarrow> sorted (map ruleKey (foldl (\<lambda>sorted u. insertUpdate u sorted) acc us)))"
  by (induction us arbitrary: acc) (auto simp: mset_insertUpdate sorted_insertUpdate)

lemma mset_sortUpdates: "mset (sortUpdates us) = mset us"
  by (simp add: sortUpdates_def foldl_insertUpdate)

lemma set_sortUpdates: "set (sortUpdates us) = set us"
  by (metis mset_sortUpdates set_mset_mset)

lemma sorted_sortUpdates: "sorted (map ruleKey (sortUpdates us))"
  by (simp add: sortUpdates_def foldl_insertUpdate)

lemma foldl_append_concat:
  "foldl (\<lambda>acc x. acc @ g x) acc xs = acc @ concat (map g xs)"
  by (induction xs arbitrary: acc) auto

lemma createEcosystem_append: "createEcosystem tmpls updates eco = updates @ createRules tmpls eco"
proof (cases "tmpls (Name eco)")
  case None
  have "foldl (\<lambda>updates dir. updates @ [basicUpdate eco dir]) updates (Directories eco)
        = updates @ concat (map (\<lambda>dir. [basicUpdate eco dir]) (Directories eco))"
    by (rule foldl_append_concat)
  also have "concat (map (\<lambda>dir. [basicUpdate eco dir]) (Directories eco)) = map (basicUpdate eco) (Directories eco)"
    by (induction "Directories eco") auto
  finally show ?thesis using None by (simp add: createEcosystem_def createRules_def)
next
  case (Some template)
  then show ?thesis by (simp add: createEcosystem_def createRules_def foldl_append_concat)
qed

lemma mergeEcosystem_append:
  "mergeEcosystem tmpls existingUpdates merged eco = merged @ mergeRules tmpls existingUpdates eco"
  by (cases "tmpls (Name eco)") (simp_all add: mergeEcosystem_def mergeRules_def foldl_append_concat)

lemma foldl_createEcosystem:
  "foldl (createEcosystem tmpls) acc ecosystems = acc @ concat (map (createRules tmpls) ecosystems)"
  by (induction ecosystems arbitrary: acc) (auto simp: createEcosystem_append)

lemma foldl_mergeEcosystem:
  "foldl (mergeEcosystem tmpls ex) acc ecosystems = acc @ concat (map (mergeRules tmpls ex) ecosystems)"
  by (induction ecosystems arbitrary: acc) (auto simp: mergeEcosystem_append)

subsection \<open>findUpdate and the carry-forward loop\<close>

lemma found_iff: "found u ms = (\<exists>m\<in>set ms. covers u m)"
  by (simp add: found_def covers_def list_ex_iff)

lemma findUpdate_Some:
  "findUpdate us e d = Some u \<Longrightarrow>
     u \<in> set us \<and> PackageEcosystem u = e \<and> (isRootOnlyEcosystem e \<or> Directory u = d)"
  by (induction us) (auto split: if_splits)

lemma findUpdate_None:
  "findUpdate us e d = None \<Longrightarrow> u \<in> set us \<Longrightarrow> PackageEcosystem u = e \<Longrightarrow>
     \<not> isRootOnlyEcosystem e \<and> Directory u \<noteq> d"
  by (induction us) (auto split: if_splits)

lemma mergeUpdate_ecosystem [simp]: "PackageEcosystem (mergeUpdate e t) = PackageEcosystem e"
  by (simp add: mergeUpdate_def Let_def)

lemma normalizeRootOnly_simps [simp]:
  "PackageEcosystem (normalizeRootOnly u) = PackageEcosystem u"
  "rootNormal (normalizeRootOnly u)"
  "rootNormal u \<Longrightarrow> normalizeRootOnly u = u"
  "\<not> isRootOnlyEcosystem (PackageEcosystem u) \<Longrightarrow> normalizeRootOnly u = u"
  by (auto simp: normalizeRootOnly_def rootNormal_def)

lemma covers_normalize [simp]: "covers u (normalizeRootOnly m) = covers u m"
  by (auto simp: covers_def normalizeRootOnly_def)

lemma covers_self [simp]: "covers u u"
  by (simp add: covers_def)

lemma covers_key: "covers u m \<Longrightarrow> rootNormal u \<Longrightarrow> rootNormal m \<Longrightarrow> ruleKey m = ruleKey u"
  by (auto simp: covers_def rootNormal_def ruleKey_def split: if_splits)

lemma key_covers: "ruleKey m = ruleKey u \<Longrightarrow> covers u m"
  by (auto simp: covers_def ruleKey_def)

lemma foldl_carryForward_prefix:
  "\<exists>cs. foldl carryForward merged us = merged @ cs \<and> set cs \<subseteq> normalizeRootOnly ` set us"
proof (induction us arbitrary: merged)
  case Nil
  then show ?case by simp
next
  case (Cons u us)
  obtain cs where cs: "foldl carryForward (carryForward merged u) us = carryForward merged u @ cs"
      "set cs \<subseteq> normalizeRootOnly ` set us"
    using Cons.IH by blast
  show ?case
  proof (cases "found u merged")
    case True
    then have "carryForward merged u = merged" by (simp add: carryForward_def)
    with cs show ?thesis by auto
  next
    case False
    then have "carryForward merged u = merged @ [normalizeRootOnly u]" by (simp add: carryForward_def)
    with cs have "foldl carryForward merged (u # us) = merged @ (normalizeRootOnly u # cs)"
      by simp
    moreover have "set (normalizeRootOnly u # cs) \<subseteq> normalizeRootOnly ` set (u # us)"
      using cs(2) by auto
    ultimately show ?thesis by blast
  qed
qed

lemma foldl_carryForward_covered:
  "u \<in> set us \<Longrightarrow> found u (foldl carryForward merged us)"
proof (induction us arbitrary: merged)
  case Nil
  then show ?case by simp
next
  case (Cons v us)
  show ?case
  proof (cases "u \<in> set us")
    case True
    then show ?thesis using Cons.IH by simp
  next
    case False
    with Cons.prems have uv: "u = v" by simp
    have "found u (carryForward merged u)"
      by (auto simp: carryForward_def found_iff)
    moreover obtain cs where "foldl carryForward (carryForward merged u) us = carryForward merged u @ cs"
      using foldl_carryForward_prefix by blast
    ultimately show ?thesis using uv by (auto simp: found_iff)
  qed
qed

lemma foldl_carryForward_distinct:
  "distinct (map ruleKey merged) \<Longrightarrow> distinct (map ruleKey (foldl carryForward merged us))"
proof (induction us arbitrary: merged)
  case Nil
  then show ?case by simp
next
  case (Cons u us)
  have "distinct (map ruleKey (carryForward merged u))"
  proof (cases "found u merged")
    case True
    then show ?thesis using Cons.prems by (simp add: carryForward_def)
  next
    case False
    then have "\<forall>m\<in>set merged. \<not> covers u m" by (simp add: found_iff)
    then have "ruleKey (normalizeRootOnly u) \<notin> ruleKey ` set merged"
      by (auto simp: covers_def normalizeRootOnly_def ruleKey_def split: if_splits)
    with False Cons.prems show ?thesis by (simp add: carryForward_def)
  qed
  then show ?case using Cons.IH by simp
qed

lemma foldl_carryForward_rootNormal:
  "\<forall>m\<in>set merged. rootNormal m \<Longrightarrow> r \<in> set (foldl carryForward merged us) \<Longrightarrow> rootNormal r"
proof -
  assume m: "\<forall>m\<in>set merged. rootNormal m" and r: "r \<in> set (foldl carryForward merged us)"
  obtain cs where cs: "foldl carryForward merged us = merged @ cs"
      "set cs \<subseteq> normalizeRootOnly ` set us"
    using foldl_carryForward_prefix by blast
  from r cs(1) have "r \<in> set merged \<or> r \<in> set cs" by simp
  then show ?thesis
  proof
    assume "r \<in> set merged" with m show ?thesis by blast
  next
    assume "r \<in> set cs"
    with cs(2) obtain x where "r = normalizeRootOnly x" by blast
    then show ?thesis by simp
  qed
qed

lemma foldl_carryForward_keeps:
  assumes "\<not> found u merged" "\<not> found u before"
  shows "normalizeRootOnly u \<in> set (foldl carryForward merged (before @ u # after))"
proof -
  obtain bs where bs: "foldl carryForward merged before = merged @ bs"
      "set bs \<subseteq> normalizeRootOnly ` set before"
    using foldl_carryForward_prefix by blast
  have "\<not> found u (merged @ bs)"
    using assms bs(2) by (auto simp: found_iff)
  then have "normalizeRootOnly u \<in> set (carryForward (foldl carryForward merged before) u)"
    by (simp add: bs carryForward_def)
  moreover obtain cs where "foldl carryForward (carryForward (foldl carryForward merged before) u) after
      = carryForward (foldl carryForward merged before) u @ cs"
    using foldl_carryForward_prefix by blast
  ultimately show ?thesis by simp
qed

subsection \<open>Root-only rules sit at the root\<close>

lemma mergeDirectory_mergeOne:
  "mergeDirectory ex t eco dir = map (\<lambda>tu. mergeOne ex eco tu dir) (Updates t)"
  by (simp add: mergeDirectory_def mergeOne_def useTemplate_def split: option.splits)

lemma mergeOne_rootNormal:
  assumes "dir = ''/'' \<or> (\<not> isRootOnlyEcosystem (PackageEcosystem tu))"
  shows "rootNormal (mergeOne ex eco tu dir)"
proof (cases "findUpdate ex (Type eco) dir")
  case None
  with assms show ?thesis by (auto simp: mergeOne_def rootNormal_def)
next
  case (Some e)
  then have "PackageEcosystem e = Type eco" by (simp add: findUpdate_Some)
  with Some show ?thesis by (simp add: mergeOne_def rootNormal_def)
qed

lemma mergeRules_rootNormal:
  assumes "rootOnlyAtRoot tmpls eco" "r \<in> set (mergeRules tmpls ex eco)"
  shows "rootNormal r"
proof (cases "tmpls (Name eco)")
  case None
  with assms show ?thesis by (simp add: mergeRules_def)
next
  case (Some t)
  with assms(2) obtain dir tu where r: "dir \<in> set (Directories eco)" "tu \<in> set (Updates t)"
      "r = mergeOne ex eco tu dir"
    by (auto simp: mergeRules_def mergeDirectory_mergeOne)
  from assms(1) Some r(1,2) have "dir = ''/'' \<or> \<not> isRootOnlyEcosystem (PackageEcosystem tu)"
    by (auto simp: rootOnlyAtRoot_def list_all_iff)
  with r(3) show ?thesis by (simp add: mergeOne_rootNormal)
qed

lemma createRules_rootNormal:
  assumes "rootOnlyAtRoot tmpls eco" "r \<in> set (createRules tmpls eco)"
  shows "rootNormal r"
proof (cases "tmpls (Name eco)")
  case None
  with assms(2) obtain dir where r: "dir \<in> set (Directories eco)" "r = basicUpdate eco dir"
    by (auto simp: createRules_def)
  from assms(1) None r(1) have "dir = ''/'' \<or> \<not> isRootOnlyEcosystem (Type eco)"
    by (auto simp: rootOnlyAtRoot_def list_all_iff)
  with r(2) show ?thesis by (auto simp: basicUpdate_def rootNormal_def)
next
  case (Some t)
  with assms(2) obtain dir tu where r: "dir \<in> set (Directories eco)" "tu \<in> set (Updates t)"
      "r = tu\<lparr>Directory := dir\<rparr>"
    by (auto simp: createRules_def useTemplate_def)
  from assms(1) Some r(1,2) have "dir = ''/'' \<or> \<not> isRootOnlyEcosystem (PackageEcosystem tu)"
    by (auto simp: rootOnlyAtRoot_def list_all_iff)
  with r(3) show ?thesis by (auto simp: rootNormal_def)
qed

lemma Merge_Some_Updates:
  "Updates (Merge tmpls (Some existing) ecosystems) =
     sortUpdates (foldl carryForward (concat (map (mergeRules tmpls (Updates existing)) ecosystems))
        (Updates existing))"
  by (simp add: Merge.simps Let_def foldl_mergeEcosystem)

lemma Merge_None_Updates:
  "Updates (Merge tmpls None ecosystems) = sortUpdates (concat (map (createRules tmpls) ecosystems))"
  by (simp add: Merge.simps createFromTemplates_def foldl_createEcosystem)

declare Merge.simps [simp del]

lemma Merge_rootNormal:
  assumes "list_all (rootOnlyAtRoot tmpls) ecosystems"
    and "r \<in> set (Updates (Merge tmpls existing ecosystems))"
  shows "rootNormal r"
proof (cases existing)
  case None
  with assms(2) obtain eco where "eco \<in> set ecosystems" "r \<in> set (createRules tmpls eco)"
    by (auto simp: Merge_None_Updates set_sortUpdates)
  with assms(1) show ?thesis by (auto simp: list_all_iff intro: createRules_rootNormal)
next
  case (Some e)
  have "\<forall>m\<in>set (concat (map (mergeRules tmpls (Updates e)) ecosystems)). rootNormal m"
    using assms(1) by (auto simp: list_all_iff intro: mergeRules_rootNormal)
  moreover have "r \<in> set (foldl carryForward (concat (map (mergeRules tmpls (Updates e)) ecosystems)) (Updates e))"
    using assms(2) Some by (simp add: Merge_Some_Updates set_sortUpdates)
  ultimately show ?thesis by (rule foldl_carryForward_rootNormal)
qed

lemmas ex_defs = weekly_def daily_def detected_def rule_def document_def zeroUpdate_def
lemmas merge_defs = Merge.simps createFromTemplates_def createEcosystem_def useTemplate_def
  basicUpdate_def mergeEcosystem_def mergeDirectory_def carryForward_def found_def
  normalizeRootOnly_def sortUpdates_def updateLess_def mergeUpdate_def rangeAssignGroups_def
  mergeStringSlices_def isRootOnlyEcosystem_def Let_def

subsection \<open>Root-only directory normalisation\<close>

text \<open>
  Two paths of \<open>Merge\<close> put a root-only rule at "/" whatever directory they start from:
  the merge with a matched existing rule (under the comment \<^emph>\<open>Always use "/" for root-only
  ecosystems\<close>) and the carry-forward loop (\<^emph>\<open>Normalize directory for root-only
  ecosystems\<close>).
\<close>

lemma mergeOne_matched_rootNormal:
  assumes "findUpdate ex (Type eco) dir = Some e"
  shows "rootNormal (mergeOne ex eco tu dir)"
proof -
  from assms have "PackageEcosystem e = Type eco" by (simp add: findUpdate_Some)
  with assms show ?thesis by (simp add: mergeOne_def rootNormal_def)
qed

lemma carryForward_rootNormal:
  assumes "\<not> found u merged"
  shows "rootNormal (last (carryForward merged u))"
  using assms by (simp add: carryForward_def)


subsection \<open>Ordering\<close>

text \<open>
  Claim C5. The rule list of every document that \<open>Merge\<close> returns, with or without an
  existing document, is sorted ascending by ecosystem identifier and then by directory,
  both lexicographically.
\<close>

theorem Merge_sorted:
  "sorted_wrt (\<lambda>a b. PackageEcosystem a < PackageEcosystem b
                  \<or> (PackageEcosystem a = PackageEcosystem b \<and> Directory a \<le> Directory b))
     (Updates (Merge tmpls existing ecosystems))"
proof -
  have "sorted (map ruleKey (Updates (Merge tmpls existing ecosystems)))"
    by (cases existing) (simp_all add: Merge_None_Updates Merge_Some_Updates sorted_sortUpdates)
  then have "sorted_wrt (\<lambda>a b. ruleKey a \<le> ruleKey b) (Updates (Merge tmpls existing ecosystems))"
    by (simp add: sorted_map)
  then show ?thesis
    by (rule sorted_wrt_mono_rel [rotated]) (auto simp: ruleKey_def less_eq_prod_def)
qed

text \<open>Claim C5, witness: npm in two directories and docker, no existing document.\<close>

theorem Merge_sorted_witness:
  "sorted_wrt (\<lambda>a b. PackageEcosystem a < PackageEcosystem b
                  \<or> (PackageEcosystem a = PackageEcosystem b \<and> Directory a \<le> Directory b))
     (Updates (Merge [''npm'' \<mapsto> document [rule ''npm'' [] weekly 10]] None
        [detected ''npm'' [''/frontend'', ''/''] 1, detected ''docker'' [''/''] (9/10)]))
   \<and> map ruleKey (Updates (Merge [''npm'' \<mapsto> document [rule ''npm'' [] weekly 10]] None
        [detected ''npm'' [''/frontend'', ''/''] 1, detected ''docker'' [''/''] (9/10)]))
      = [(''docker'', ''/''), (''npm'', ''/''), (''npm'', ''/frontend'')]"
proof -
  have "map ruleKey (Updates (Merge [''npm'' \<mapsto> document [rule ''npm'' [] weekly 10]] None
        [detected ''npm'' [''/frontend'', ''/''] 1, detected ''docker'' [''/''] (9/10)]))
      = [(''docker'', ''/''), (''npm'', ''/''), (''npm'', ''/frontend'')]"
    by (simp add: ex_defs merge_defs ruleKey_def)
  with Merge_sorted [of "[''npm'' \<mapsto> document [rule ''npm'' [] weekly 10]]" None
        "[detected ''npm'' [''/frontend'', ''/''] 1, detected ''docker'' [''/''] (9/10)]"]
  show ?thesis by simp
qed

subsection \<open>Carry-forward\<close>

lemma mergeRules_ecosystem:
  assumes "r \<in> set (mergeRules tmpls ex eco)"
  shows "PackageEcosystem r = Type eco
     \<or> (\<exists>t tu. tmpls (Name eco) = Some t \<and> tu \<in> set (Updates t) \<and> PackageEcosystem r = PackageEcosystem tu)"
proof (cases "tmpls (Name eco)")
  case None
  with assms show ?thesis by (simp add: mergeRules_def)
next
  case (Some t)
  with assms obtain dir tu where r: "tu \<in> set (Updates t)" "r = mergeOne ex eco tu dir"
    by (auto simp: mergeRules_def mergeDirectory_mergeOne)
  show ?thesis
  proof (cases "findUpdate ex (Type eco) dir")
    case None
    with r Some show ?thesis by (auto simp: mergeOne_def)
  next
    case (Some e)
    then have "PackageEcosystem e = Type eco" by (simp add: findUpdate_Some)
    with Some r show ?thesis by (simp add: mergeOne_def)
  qed
qed

lemma ecosystemAbsent_not_found:
  assumes "ecosystemAbsent tmpls ecosystems (PackageEcosystem u)"
  shows "\<not> found u (concat (map (mergeRules tmpls ex) ecosystems))"
proof
  assume "found u (concat (map (mergeRules tmpls ex) ecosystems))"
  then obtain eco r where r: "eco \<in> set ecosystems" "r \<in> set (mergeRules tmpls ex eco)" "covers u r"
    by (auto simp: found_iff)
  from r(3) have "PackageEcosystem r = PackageEcosystem u"
    by (auto simp: covers_def split: if_splits)
  moreover from assms r(1) have "Type eco \<noteq> PackageEcosystem u"
      and "\<And>t tu. tmpls (Name eco) = Some t \<Longrightarrow> tu \<in> set (Updates t)
             \<Longrightarrow> PackageEcosystem tu \<noteq> PackageEcosystem u"
    by (auto simp: ecosystemAbsent_def list_all_iff)
  ultimately show False
    using mergeRules_ecosystem [OF r(2)] by metis
qed

text \<open>
  Claim C7, as amended. An existing rule that matches no earlier rule of the existing
  document (same ecosystem and, unless root-only, same directory) is in the output of
  \<open>Merge\<close>, unchanged but for the directory "/" of a root-only rule, whenever it matches no
  rule made from the detected ecosystems; in particular whenever its ecosystem tag is
  absent from the detected ecosystems and from their templates' rules.
\<close>

theorem Merge_carry_forward:
  assumes "Updates existing = before @ u # after"
    and "\<not> found u before"
  shows "(\<not> found u (foldl (mergeEcosystem tmpls (Updates existing)) [] ecosystems)
           \<longrightarrow> normalizeRootOnly u \<in> set (Updates (Merge tmpls (Some existing) ecosystems)))
       \<and> (ecosystemAbsent tmpls ecosystems (PackageEcosystem u)
           \<longrightarrow> normalizeRootOnly u \<in> set (Updates (Merge tmpls (Some existing) ecosystems)))"
proof -
  have "normalizeRootOnly u \<in> set (Updates (Merge tmpls (Some existing) ecosystems))"
    if "\<not> found u (concat (map (mergeRules tmpls (Updates existing)) ecosystems))"
    using foldl_carryForward_keeps [OF that assms(2)] assms(1)
    by (simp add: Merge_Some_Updates set_sortUpdates)
  then show ?thesis
    by (auto simp: foldl_mergeEcosystem dest: ecosystemAbsent_not_found)
qed

text \<open>
  Claim C7 as stated fails: of two existing docker rules in different directories, with
  nothing detected, the second matches no rule made from the detected ecosystems and
  yet is not in the output; only the first is carried, at "/".
\<close>

theorem Merge_carry_forward_counterexample:
  "\<not> found ((rule ''docker'' ''/worker'' daily 3)\<lparr>Labels := [''worker'']\<rparr>)
       (foldl (mergeEcosystem Map.empty
                 [(rule ''docker'' ''/app'' daily 3)\<lparr>Labels := [''app'']\<rparr>,
                  (rule ''docker'' ''/worker'' daily 3)\<lparr>Labels := [''worker'']\<rparr>]) [] [])
   \<and> Updates (Merge Map.empty
         (Some (document [(rule ''docker'' ''/app'' daily 3)\<lparr>Labels := [''app'']\<rparr>,
                          (rule ''docker'' ''/worker'' daily 3)\<lparr>Labels := [''worker'']\<rparr>])) [])
       = [(rule ''docker'' ''/'' daily 3)\<lparr>Labels := [''app'']\<rparr>]"
  by (simp add: ex_defs merge_defs)

text \<open>Claim C7, witness: an existing elm rule, npm detected with a template.\<close>

theorem Merge_carry_forward_witness:
  "Updates (document [(rule ''elm'' ''/ui'' daily 3)\<lparr>Labels := [''custom'']\<rparr>])
     = [] @ (rule ''elm'' ''/ui'' daily 3)\<lparr>Labels := [''custom'']\<rparr> # []
   \<and> \<not> found ((rule ''elm'' ''/ui'' daily 3)\<lparr>Labels := [''custom'']\<rparr>) []
   \<and> ecosystemAbsent [''npm'' \<mapsto> document [rule ''npm'' [] weekly 10]] [detected ''npm'' [''/''] 1] ''elm''
   \<and> (rule ''elm'' ''/ui'' daily 3)\<lparr>Labels := [''custom'']\<rparr>
       \<in> set (Updates (Merge [''npm'' \<mapsto> document [rule ''npm'' [] weekly 10]]
             (Some (document [(rule ''elm'' ''/ui'' daily 3)\<lparr>Labels := [''custom'']\<rparr>]))
             [detected ''npm'' [''/''] 1]))"
proof -
  have a: "Updates (document [(rule ''elm'' ''/ui'' daily 3)\<lparr>Labels := [''custom'']\<rparr>])
     = [] @ (rule ''elm'' ''/ui'' daily 3)\<lparr>Labels := [''custom'']\<rparr> # []"
    by (simp add: document_def)
  have b: "\<not> found ((rule ''elm'' ''/ui'' daily 3)\<lparr>Labels := [''custom'']\<rparr>) []"
    by (simp add: found_def)
  have c: "ecosystemAbsent [''npm'' \<mapsto> document [rule ''npm'' [] weekly 10]] [detected ''npm'' [''/''] 1] ''elm''"
    by (simp add: ecosystemAbsent_def ex_defs)
  have d: "normalizeRootOnly ((rule ''elm'' ''/ui'' daily 3)\<lparr>Labels := [''custom'']\<rparr>)
     = (rule ''elm'' ''/ui'' daily 3)\<lparr>Labels := [''custom'']\<rparr>"
    by (simp add: normalizeRootOnly_def isRootOnlyEcosystem_def ex_defs)
  have e: "PackageEcosystem ((rule ''elm'' ''/ui'' daily 3)\<lparr>Labels := [''custom'']\<rparr>) = ''elm''"
    by (simp add: ex_defs)
  from Merge_carry_forward [OF a b, of "[''npm'' \<mapsto> document [rule ''npm'' [] weekly 10]]"
      "[detected ''npm'' [''/''] 1]"] a b c d e
  show ?thesis by simp
qed

subsection \<open>Uniqueness of rule identities\<close>

lemma wellFormed_template:
  assumes "wellFormedEcosystem tmpls eco" "tmpls (Name eco) = Some t"
  shows "Updates t = [] \<or> (\<exists>tu. Updates t = [tu] \<and> PackageEcosystem tu = Type eco)"
proof (cases "Updates t")
  case Nil
  then show ?thesis by simp
next
  case (Cons tu rest)
  with assms show ?thesis by (auto simp: wellFormedEcosystem_def)
qed

lemma wellFormed_root_dir:
  "wellFormedEcosystem tmpls eco \<Longrightarrow> dir \<in> set (Directories eco) \<Longrightarrow>
     isRootOnlyEcosystem (Type eco) \<Longrightarrow> dir = ''/''"
  by (auto simp: wellFormedEcosystem_def list_all_iff)

lemma mergeOne_key:
  assumes "wellFormedEcosystem tmpls eco" "dir \<in> set (Directories eco)"
    and "PackageEcosystem tu = Type eco"
  shows "ruleKey (mergeOne ex eco tu dir) = (Type eco, dir)"
proof (cases "findUpdate ex (Type eco) dir")
  case None
  with assms(3) show ?thesis by (simp add: mergeOne_def ruleKey_def)
next
  case (Some e)
  then have "PackageEcosystem e = Type eco" by (simp add: findUpdate_Some)
  with Some wellFormed_root_dir [OF assms(1,2)] show ?thesis
    by (auto simp: mergeOne_def ruleKey_def)
qed

lemma concat_map_singleton: "concat (map (\<lambda>x. [f x]) xs) = map f xs"
  by (induction xs) auto

lemma concat_map_Nil: "concat (map (\<lambda>x. []) xs) = []"
  by (induction xs) auto

lemma mergeRules_wellFormed:
  assumes "wellFormedEcosystem tmpls eco"
  shows "\<exists>ds. map ruleKey (mergeRules tmpls ex eco) = map (Pair (Type eco)) ds \<and> distinct ds
           \<and> set ds \<subseteq> set (Directories eco)"
proof (cases "tmpls (Name eco)")
  case None
  then have "mergeRules tmpls ex eco = []" by (simp add: mergeRules_def)
  then show ?thesis by simp
next
  case (Some t)
  from wellFormed_template [OF assms Some] show ?thesis
  proof
    assume "Updates t = []"
    then have "mergeDirectory ex t eco = (\<lambda>dir. [])"
      by (simp add: fun_eq_iff mergeDirectory_mergeOne)
    with Some have "mergeRules tmpls ex eco = []"
      by (simp add: mergeRules_def concat_map_Nil)
    then show ?thesis by simp
  next
    assume "\<exists>tu. Updates t = [tu] \<and> PackageEcosystem tu = Type eco"
    then obtain tu where tu: "Updates t = [tu]" "PackageEcosystem tu = Type eco" by blast
    then have "mergeDirectory ex t eco = (\<lambda>dir. [mergeOne ex eco tu dir])"
      by (simp add: fun_eq_iff mergeDirectory_mergeOne)
    with Some have "mergeRules tmpls ex eco = map (mergeOne ex eco tu) (Directories eco)"
      by (simp add: mergeRules_def concat_map_singleton)
    then have "map ruleKey (mergeRules tmpls ex eco) = map (Pair (Type eco)) (Directories eco)"
      using mergeOne_key [OF assms _ tu(2)] by simp
    moreover have "distinct (Directories eco)"
      using assms by (simp add: wellFormedEcosystem_def)
    ultimately show ?thesis by blast
  qed
qed

lemma createRules_wellFormed:
  assumes "wellFormedEcosystem tmpls eco"
  shows "\<exists>ds. map ruleKey (createRules tmpls eco) = map (Pair (Type eco)) ds \<and> distinct ds
           \<and> set ds \<subseteq> set (Directories eco)"
proof -
  have d: "distinct (Directories eco)"
    using assms by (simp add: wellFormedEcosystem_def)
  show ?thesis
  proof (cases "tmpls (Name eco)")
    case None
    then have "map ruleKey (createRules tmpls eco) = map (Pair (Type eco)) (Directories eco)"
      by (simp add: createRules_def basicUpdate_def ruleKey_def)
    with d show ?thesis by blast
  next
    case (Some t)
    from wellFormed_template [OF assms Some] show ?thesis
    proof
      assume "Updates t = []"
      then have "useTemplate t = (\<lambda>dir. [])"
        by (simp add: fun_eq_iff useTemplate_def)
      with Some have "createRules tmpls eco = []"
        by (simp add: createRules_def concat_map_Nil)
      then show ?thesis by simp
    next
      assume "\<exists>tu. Updates t = [tu] \<and> PackageEcosystem tu = Type eco"
      then obtain tu where tu: "Updates t = [tu]" "PackageEcosystem tu = Type eco" by blast
      then have "useTemplate t = (\<lambda>dir. [tu\<lparr>Directory := dir\<rparr>])"
        by (simp add: fun_eq_iff useTemplate_def)
      with Some have "createRules tmpls eco = map (\<lambda>dir. tu\<lparr>Directory := dir\<rparr>) (Directories eco)"
        by (simp add: createRules_def concat_map_singleton)
      then have "map ruleKey (createRules tmpls eco) = map (Pair (Type eco)) (Directories eco)"
        using tu(2) by (simp add: ruleKey_def)
      with d show ?thesis by blast
    qed
  qed
qed

lemma distinct_keys_concat:
  assumes "distinct (map Type ecosystems)"
    and "\<And>eco. eco \<in> set ecosystems \<Longrightarrow>
           \<exists>ds. map ruleKey (rules eco) = map (Pair (Type eco)) ds \<and> distinct ds \<and> set ds \<subseteq> set (Directories eco)"
  shows "distinct (map ruleKey (concat (map rules ecosystems)))"
  using assms
proof (induction ecosystems)
  case Nil
  then show ?case by simp
next
  case (Cons eco ecosystems)
  obtain ds where ds: "map ruleKey (rules eco) = map (Pair (Type eco)) ds" "distinct ds"
    using Cons.prems(2) [of eco] by auto
  have here: "distinct (map ruleKey (rules eco))"
    using ds by (simp add: distinct_map inj_on_def)
  have rest: "distinct (map ruleKey (concat (map rules ecosystems)))"
    using Cons by simp
  have "fst k \<noteq> Type eco" if "k \<in> set (map ruleKey (concat (map rules ecosystems)))" for k
  proof -
    from that obtain eco' where e: "eco' \<in> set ecosystems" "k \<in> set (map ruleKey (rules eco'))"
      by auto
    obtain ds' where "map ruleKey (rules eco') = map (Pair (Type eco')) ds'"
      using Cons.prems(2) [of eco'] e(1) by auto
    with e(2) have "fst k = Type eco'" by auto
    moreover from e(1) have "Type eco' \<in> set (map Type ecosystems)" by simp
    moreover from Cons.prems(1) have "Type eco \<notin> set (map Type ecosystems)" by simp
    ultimately show ?thesis by metis
  qed
  moreover have "fst k = Type eco" if "k \<in> set (map ruleKey (rules eco))" for k
    using that ds(1) by auto
  ultimately have "set (map ruleKey (rules eco)) \<inter> set (map ruleKey (concat (map rules ecosystems))) = {}"
    by blast
  with here rest show ?case by simp
qed

lemma wellFormedInputs_rootOnlyAtRoot:
  assumes "wellFormedInputs tmpls ecosystems"
  shows "list_all (rootOnlyAtRoot tmpls) ecosystems"
proof -
  have "rootOnlyAtRoot tmpls eco" if "wellFormedEcosystem tmpls eco" for eco
  proof (cases "isRootOnlyEcosystem (Type eco)")
    case True
    with that show ?thesis by (simp add: wellFormedEcosystem_def rootOnlyAtRoot_def)
  next
    case False
    with that show ?thesis
      by (auto simp: wellFormedEcosystem_def rootOnlyAtRoot_def list_all_iff split: option.splits)
  qed
  with assms show ?thesis by (auto simp: wellFormedInputs_def list_all_iff)
qed

lemma Merge_keys_distinct:
  assumes "wellFormedInputs tmpls ecosystems"
  shows "distinct (map ruleKey (Updates (Merge tmpls existing ecosystems)))"
proof -
  have d: "distinct (map Type ecosystems)"
    and w: "\<And>eco. eco \<in> set ecosystems \<Longrightarrow> wellFormedEcosystem tmpls eco"
    using assms by (auto simp: wellFormedInputs_def list_all_iff)
  have sorted_iff: "distinct (map ruleKey (sortUpdates us)) = distinct (map ruleKey us)" for us
    by (metis mset_sortUpdates mset_map mset_eq_imp_distinct_iff)
  show ?thesis
  proof (cases existing)
    case None
    have "distinct (map ruleKey (concat (map (createRules tmpls) ecosystems)))"
      using d w by (intro distinct_keys_concat createRules_wellFormed)
    with None show ?thesis by (simp add: Merge_None_Updates sorted_iff)
  next
    case (Some e)
    have "distinct (map ruleKey (concat (map (mergeRules tmpls (Updates e)) ecosystems)))"
      using d w by (intro distinct_keys_concat mergeRules_wellFormed)
    then show ?thesis
      using Some by (simp add: Merge_Some_Updates sorted_iff foldl_carryForward_distinct)
  qed
qed

lemma rootOnly_unique:
  "distinct (map ruleKey us) \<Longrightarrow> \<forall>u\<in>set us. rootNormal u \<Longrightarrow>
     distinct (map PackageEcosystem (filter (\<lambda>u. isRootOnlyEcosystem (PackageEcosystem u)) us))"
proof (induction us)
  case Nil
  then show ?case by simp
next
  case (Cons u us)
  have "PackageEcosystem v \<noteq> PackageEcosystem u"
    if "v \<in> set us" "isRootOnlyEcosystem (PackageEcosystem v)" "isRootOnlyEcosystem (PackageEcosystem u)" for v
  proof
    assume "PackageEcosystem v = PackageEcosystem u"
    moreover from that Cons.prems(2) have "Directory v = ''/''" "Directory u = ''/''"
      by (auto simp: rootNormal_def)
    ultimately have "ruleKey v = ruleKey u" by (simp add: ruleKey_def)
    moreover from that(1) have "ruleKey v \<in> set (map ruleKey us)" by simp
    moreover from Cons.prems(1) have "ruleKey u \<notin> set (map ruleKey us)" by simp
    ultimately show False by metis
  qed
  then have "isRootOnlyEcosystem (PackageEcosystem u) \<Longrightarrow> PackageEcosystem u \<notin>
      set (map PackageEcosystem (filter (\<lambda>u. isRootOnlyEcosystem (PackageEcosystem u)) us))"
    by (auto simp del: set_map) (metis (mono_tags, lifting) imageE mem_Collect_eq set_filter set_map)
  with Cons show ?case by simp
qed

text \<open>
  Claim C3, as amended. On well-formed inputs (detected ecosystems of pairwise different
  types, each with a duplicate-free directory list that is just "/" for a root-only type,
  and templates that hold at most one rule, of the detected ecosystem's type), no two
  rules of the document that \<open>Merge\<close> returns have the same (ecosystem, directory), and
  no two of its rules are for the same root-only ecosystem; this for every existing
  document, present or absent.
\<close>

theorem Merge_unique_identities:
  assumes "wellFormedInputs tmpls ecosystems"
  shows "distinct (map ruleKey (Updates (Merge tmpls existing ecosystems)))
       \<and> distinct (map PackageEcosystem
            (filter (\<lambda>u. isRootOnlyEcosystem (PackageEcosystem u))
               (Updates (Merge tmpls existing ecosystems))))"
proof -
  have d: "distinct (map ruleKey (Updates (Merge tmpls existing ecosystems)))"
    using assms by (rule Merge_keys_distinct)
  have "\<forall>u\<in>set (Updates (Merge tmpls existing ecosystems)). rootNormal u"
    using wellFormedInputs_rootOnlyAtRoot [OF assms] by (blast intro: Merge_rootNormal)
  with d show ?thesis by (simp add: rootOnly_unique)
qed

text \<open>
  Claim C3 as stated fails: a template with two rules gives two rules for each detected
  directory, here two npm rules at "/".
\<close>

theorem Merge_unique_identities_counterexample:
  "map ruleKey (Updates (Merge
      [''npm'' \<mapsto> document [rule ''npm'' ''/x'' weekly 7, rule ''npm'' ''/y'' daily 0]]
      None [detected ''npm'' [''/''] 1]))
   = [(''npm'', ''/''), (''npm'', ''/'')]"
  by (simp add: ex_defs merge_defs ruleKey_def)

text \<open>
  Claim C3, witness: npm detected in two directories with a template, docker without one,
  and an existing document with two docker rules and an npm rule.
\<close>

theorem Merge_unique_identities_witness:
  "wellFormedInputs [''npm'' \<mapsto> document [rule ''npm'' [] weekly 10]]
     [detected ''npm'' [''/'', ''/packages/ui''] 1, detected ''docker'' [''/''] (9/10)]
   \<and> map ruleKey (Updates (Merge [''npm'' \<mapsto> document [rule ''npm'' [] weekly 10]]
        (Some (document [rule ''docker'' ''/app'' daily 3, rule ''docker'' ''/worker'' daily 3,
                         rule ''npm'' ''/'' daily 3]))
        [detected ''npm'' [''/'', ''/packages/ui''] 1, detected ''docker'' [''/''] (9/10)]))
      = [(''docker'', ''/''), (''npm'', ''/''), (''npm'', ''/packages/ui'')]
   \<and> distinct (map ruleKey (Updates (Merge [''npm'' \<mapsto> document [rule ''npm'' [] weekly 10]]
        (Some (document [rule ''docker'' ''/app'' daily 3, rule ''docker'' ''/worker'' daily 3,
                         rule ''npm'' ''/'' daily 3]))
        [detected ''npm'' [''/'', ''/packages/ui''] 1, detected ''docker'' [''/''] (9/10)])))"
proof -
  have a: "wellFormedInputs [''npm'' \<mapsto> document [rule ''npm'' [] weekly 10]]
     [detected ''npm'' [''/'', ''/packages/ui''] 1, detected ''docker'' [''/''] (9/10)]"
    by (simp add: wellFormedInputs_def wellFormedEcosystem_def ex_defs isRootOnlyEcosystem_def)
  have b: "map ruleKey (Updates (Merge [''npm'' \<mapsto> document [rule ''npm'' [] weekly 10]]
        (Some (document [rule ''docker'' ''/app'' daily 3, rule ''docker'' ''/worker'' daily 3,
                         rule ''npm'' ''/'' daily 3]))
        [detected ''npm'' [''/'', ''/packages/ui''] 1, detected ''docker'' [''/''] (9/10)]))
      = [(''docker'', ''/''), (''npm'', ''/''), (''npm'', ''/packages/ui'')]"
    by (simp add: ex_defs merge_defs ruleKey_def)
  from a b Merge_unique_identities [OF a, of "Some (document [rule ''docker'' ''/app'' daily 3,
      rule ''docker'' ''/worker'' daily 3, rule ''npm'' ''/'' daily 3])"]
  show ?thesis by simp
qed

subsection \<open>Idempotence\<close>

lemma compared_ruleKey: "compared a = compared b \<Longrightarrow> ruleKey a = ruleKey b"
  by (simp add: compared_def ruleKey_def)

lemma sorted_distinct_compared_unique:
  assumes "sorted (map ruleKey xs)" "sorted (map ruleKey ys)"
    and "distinct (map ruleKey xs)" "distinct (map ruleKey ys)"
    and "compared ` set xs = compared ` set ys"
  shows "map compared xs = map compared ys"
proof -
  have k: "ruleKey u = (\<lambda>c. (fst c, fst (snd c))) (compared u)" for u
    by (simp add: compared_def ruleKey_def)
  then have kx: "map ruleKey xs = map (\<lambda>c. (fst c, fst (snd c))) (map compared xs)"
    and ky: "map ruleKey ys = map (\<lambda>c. (fst c, fst (snd c))) (map compared ys)"
    by simp_all
  have img: "ruleKey ` set zs = (\<lambda>c. (fst c, fst (snd c))) ` (compared ` set zs)" for zs
    by (simp add: image_image k)
  have "set (map ruleKey xs) = set (map ruleKey ys)"
    using assms(5) by (simp add: img del: image_image)
  with assms(1-4) have keys: "map ruleKey xs = map ruleKey ys"
    by (intro sorted_distinct_set_unique)
  have "inj_on (\<lambda>c. (fst c, fst (snd c))) (set (map compared xs))"
    using assms(3) unfolding kx by (simp only: distinct_map)
  moreover have "set (map compared ys) = set (map compared xs)"
    using assms(5) by simp
  ultimately show ?thesis
    using keys unfolding kx ky by (subst (asm) inj_on_map_eq_map) auto
qed

lemma Version_Merge [simp]: "Version (Merge tmpls existing ecosystems) = 2"
  by (cases existing) (simp_all add: Merge.simps createFromTemplates_def Let_def)

lemma mergeOne_stable:
  "Interval (Schedule (mergeOne ex eco tu dir)) = Interval (Schedule tu)
   \<and> (OpenPullRequestsLimit tu > 0 \<longrightarrow> OpenPullRequestsLimit (mergeOne ex eco tu dir) = OpenPullRequestsLimit tu)"
  by (simp add: mergeOne_def mergeUpdate_def Let_def split: option.splits)

lemma Merge_upToDate:
  assumes "wellFormedInputs tmpls ecosystems"
  shows "upToDate tmpls ecosystems (Updates (Merge tmpls existing ecosystems))"
  unfolding upToDate_def
proof (intro ballI allI impI)
  fix eco t tu dir
  assume eco: "eco \<in> set ecosystems" and t: "tmpls (Name eco) = Some t" and tu: "Updates t = [tu]"
    and dir: "dir \<in> set (Directories eco)"
  from assms eco have wf: "wellFormedEcosystem tmpls eco"
    by (simp add: wellFormedInputs_def list_all_iff)
  with t tu have tue: "PackageEcosystem tu = Type eco"
    by (simp add: wellFormedEcosystem_def)
  let ?P = "\<lambda>p. ruleKey p = (Type eco, dir) \<and> Interval (Schedule p) = Interval (Schedule tu)
            \<and> (OpenPullRequestsLimit tu > 0 \<longrightarrow> OpenPullRequestsLimit p = OpenPullRequestsLimit tu)"
  show "\<exists>p\<in>set (Updates (Merge tmpls existing ecosystems)). ?P p"
  proof (cases existing)
    case None
    have "tu\<lparr>Directory := dir\<rparr> \<in> set (createRules tmpls eco)"
      using t tu dir by (auto simp: createRules_def useTemplate_def)
    with eco None have "tu\<lparr>Directory := dir\<rparr> \<in> set (Updates (Merge tmpls existing ecosystems))"
      by (auto simp: Merge_None_Updates set_sortUpdates)
    moreover have "?P (tu\<lparr>Directory := dir\<rparr>)"
      using tue by (simp add: ruleKey_def)
    ultimately show ?thesis by blast
  next
    case (Some e)
    have "mergeOne (Updates e) eco tu dir \<in> set (mergeRules tmpls (Updates e) eco)"
      using t tu dir by (auto simp: mergeRules_def mergeDirectory_mergeOne)
    with eco have "mergeOne (Updates e) eco tu dir \<in> set (concat (map (mergeRules tmpls (Updates e)) ecosystems))"
      by auto
    moreover obtain cs where "foldl carryForward (concat (map (mergeRules tmpls (Updates e)) ecosystems)) (Updates e)
        = concat (map (mergeRules tmpls (Updates e)) ecosystems) @ cs"
      using foldl_carryForward_prefix by blast
    ultimately have "mergeOne (Updates e) eco tu dir \<in> set (Updates (Merge tmpls existing ecosystems))"
      using Some by (simp add: Merge_Some_Updates set_sortUpdates)
    moreover have "?P (mergeOne (Updates e) eco tu dir)"
      using mergeOne_key [OF wf dir tue] mergeOne_stable by simp
    ultimately show ?thesis by blast
  qed
qed


lemma mergeRules_upToDate:
  assumes wf: "wellFormedEcosystem tmpls eco"
    and up: "upToDate tmpls ecosystems S" and eco: "eco \<in> set ecosystems"
    and dk: "distinct (map ruleKey S)" and rn: "\<forall>u\<in>set S. rootNormal u"
    and r: "r \<in> set (mergeRules tmpls S eco)"
  shows "\<exists>p\<in>set S. compared r = compared p"
proof (cases "tmpls (Name eco)")
  case None
  with r show ?thesis by (simp add: mergeRules_def)
next
  case (Some t)
  with r obtain dir tu where d: "dir \<in> set (Directories eco)" and tu: "tu \<in> set (Updates t)"
      and rr: "r = mergeOne S eco tu dir"
    by (auto simp: mergeRules_def mergeDirectory_mergeOne)
  from wellFormed_template [OF wf Some] tu have t1: "Updates t = [tu]"
      and tue: "PackageEcosystem tu = Type eco"
    by auto
  from up eco Some t1 d obtain p where p: "p \<in> set S" "ruleKey p = (Type eco, dir)"
      "Interval (Schedule p) = Interval (Schedule tu)"
      "OpenPullRequestsLimit tu > 0 \<longrightarrow> OpenPullRequestsLimit p = OpenPullRequestsLimit tu"
    unfolding upToDate_def by blast
  from p(2) have pe: "PackageEcosystem p = Type eco" and pd: "Directory p = dir"
    by (simp_all add: ruleKey_def)
  obtain q where q: "findUpdate S (Type eco) dir = Some q"
    using findUpdate_None [of S "Type eco" dir p] p(1) pe pd by (cases "findUpdate S (Type eco) dir") auto
  from findUpdate_Some [OF q] have qs: "q \<in> set S" and qe: "PackageEcosystem q = Type eco"
      and qd: "isRootOnlyEcosystem (Type eco) \<or> Directory q = dir"
    by auto
  have "Directory q = dir"
  proof (cases "isRootOnlyEcosystem (Type eco)")
    case True
    with rn qs qe have "Directory q = ''/''" by (auto simp: rootNormal_def)
    with wellFormed_root_dir [OF wf d True] show ?thesis by simp
  next
    case False
    with qd show ?thesis by simp
  qed
  with qe p(2) have "ruleKey q = ruleKey p" by (simp add: ruleKey_def)
  with dk qs p(1) have "q = p"
    by (meson distinct_map inj_onD)
  have rootdir: "(if isRootOnlyEcosystem (Type eco) then ''/'' else dir) = dir"
    using wellFormed_root_dir [OF wf d] by simp
  have "compared r = compared p"
    unfolding rr mergeOne_def q \<open>q = p\<close> using p(3,4) pe pd rootdir
    by (simp add: compared_def mergeUpdate_def Let_def)
  with p(1) show ?thesis by blast
qed

lemma Merge_fixpoint:
  assumes wf: "wellFormedInputs tmpls ecosystems"
    and up: "upToDate tmpls ecosystems (Updates M)"
    and dk: "distinct (map ruleKey (Updates M))" and rn: "\<forall>u\<in>set (Updates M). rootNormal u"
    and so: "sorted (map ruleKey (Updates M))"
  shows "map compared (Updates (Merge tmpls (Some M) ecosystems)) = map compared (Updates M)"
proof -
  define S where "S = Updates M"
  note up = up [folded S_def] and dk = dk [folded S_def] and rn = rn [folded S_def]
    and so = so [folded S_def]
  let ?P = "concat (map (mergeRules tmpls S) ecosystems)"
  let ?L = "foldl carryForward ?P S"
  have inj: "a = b" if "a \<in> set S" "b \<in> set S" "ruleKey a = ruleKey b" for a b
    using dk that by (meson distinct_map inj_onD)
  have prod: "\<exists>p\<in>set S. compared r = compared p" if "r \<in> set ?P" for r
  proof -
    from that obtain eco where e: "eco \<in> set ecosystems" "r \<in> set (mergeRules tmpls S eco)"
      by auto
    with wf have "wellFormedEcosystem tmpls eco"
      by (simp add: wellFormedInputs_def list_all_iff)
    then show ?thesis using up e(1) dk rn e(2) by (rule mergeRules_upToDate)
  qed
  have prodnormal: "rootNormal r" if "r \<in> set ?P" for r
    using that wellFormedInputs_rootOnlyAtRoot [OF wf]
    by (auto simp: list_all_iff intro: mergeRules_rootNormal)
  obtain cs where cs: "?L = ?P @ cs" "set cs \<subseteq> normalizeRootOnly ` set S"
    using foldl_carryForward_prefix by blast
  have carried: "c \<in> set S" if "c \<in> set cs" for c
  proof -
    from that cs(2) obtain u where "u \<in> set S" "c = normalizeRootOnly u" by blast
    with rn show ?thesis by simp
  qed
  have sub: "compared ` set ?L \<subseteq> compared ` set S"
  proof
    fix c assume "c \<in> compared ` set ?L"
    then obtain r where r: "r \<in> set ?P \<or> r \<in> set cs" "c = compared r"
      using cs(1) by auto
    from r(1) show "c \<in> compared ` set S"
    proof
      assume "r \<in> set ?P"
      from prod [OF this] r(2) show ?thesis by auto
    next
      assume "r \<in> set cs"
      from carried [OF this] r(2) show ?thesis by auto
    qed
  qed
  have sup: "compared ` set S \<subseteq> compared ` set ?L"
  proof
    fix c assume "c \<in> compared ` set S"
    then obtain u where u: "u \<in> set S" "c = compared u" by auto
    from foldl_carryForward_covered [OF u(1), of ?P] obtain m where m: "m \<in> set ?L" "covers u m"
      by (auto simp: found_iff)
    from m(1) cs(1) have "m \<in> set ?P \<or> m \<in> set cs" by simp
    then have "compared m = compared u"
    proof
      assume mp: "m \<in> set ?P"
      from prod [OF mp] obtain p where p: "p \<in> set S" "compared m = compared p" by blast
      from covers_key [OF m(2)] rn u(1) prodnormal [OF mp] have "ruleKey m = ruleKey u" by simp
      with compared_ruleKey [OF p(2)] have "ruleKey p = ruleKey u" by simp
      with inj [OF p(1) u(1)] p(2) show ?thesis by simp
    next
      assume mc: "m \<in> set cs"
      from carried [OF mc] have ms: "m \<in> set S" .
      from covers_key [OF m(2)] rn u(1) ms have "ruleKey m = ruleKey u" by simp
      with inj [OF ms u(1)] show ?thesis by simp
    qed
    then have "c = compared m" using u(2) by simp
    with m(1) show "c \<in> compared ` set ?L" by (rule image_eqI [rotated])
  qed
  have out: "Updates (Merge tmpls (Some M) ecosystems) = sortUpdates ?L"
    by (simp add: Merge_Some_Updates S_def)
  have "map compared (sortUpdates ?L) = map compared S"
  proof (rule sorted_distinct_compared_unique)
    show "sorted (map ruleKey (sortUpdates ?L))" by (rule sorted_sortUpdates)
    show "sorted (map ruleKey S)" by (rule so)
    show "distinct (map ruleKey (sortUpdates ?L))"
      using Merge_keys_distinct [OF wf, of "Some M"] by (simp add: out)
    show "distinct (map ruleKey S)" by (rule dk)
    show "compared ` set (sortUpdates ?L) = compared ` set S"
      using sub sup by (simp add: set_sortUpdates)
  qed
  with out show ?thesis by (simp add: S_def)
qed

lemma Merge_sorted_keys: "sorted (map ruleKey (Updates (Merge tmpls existing ecosystems)))"
  by (cases existing) (simp_all add: Merge_None_Updates Merge_Some_Updates sorted_sortUpdates)

text \<open>
  Claim C1, as amended. On well-formed inputs (detected ecosystems of pairwise different
  types, each with a duplicate-free directory list that is just "/" for a root-only type,
  and templates that hold at most one rule, of the detected ecosystem's type), for every
  existing document, present or absent, running \<open>Merge\<close> again on its own output with
  the same templates and detected ecosystems gives a document that \<open>Equal\<close> accepts as
  equal to that output.
\<close>

theorem Merge_idempotent:
  assumes "wellFormedInputs tmpls ecosystems"
  shows "Equal (Some (Merge tmpls (Some (Merge tmpls existing ecosystems)) ecosystems))
               (Some (Merge tmpls existing ecosystems))"
proof -
  let ?M = "Merge tmpls existing ecosystems"
  have rn: "\<forall>u\<in>set (Updates ?M). rootNormal u"
    using wellFormedInputs_rootOnlyAtRoot [OF assms] by (blast intro: Merge_rootNormal)
  have "map compared (Updates (Merge tmpls (Some ?M) ecosystems)) = map compared (Updates ?M)"
    using assms Merge_upToDate [OF assms] Merge_keys_distinct [OF assms] rn Merge_sorted_keys
    by (rule Merge_fixpoint)
  then show ?thesis unfolding Equal_compared by simp
qed

text \<open>
  Claim C1 as stated fails: with a template of two npm rules, the second without a limit,
  and an existing npm rule of limit 3, the first run keeps limit 3 in the second merged
  rule; the second run merges both template rules with the first rule of the first
  run's output and so puts its limit 7 there.
\<close>

theorem Merge_idempotent_counterexample:
  "map compared (Updates (Merge
       [''npm'' \<mapsto> document [rule ''npm'' ''/x'' weekly 7, rule ''npm'' ''/y'' daily 0]]
       (Some (document [rule ''npm'' ''/'' daily 3])) [detected ''npm'' [''/''] 1]))
     = [(''npm'', ''/'', ''weekly'', 7), (''npm'', ''/'', ''daily'', 3)]
   \<and> map compared (Updates (Merge
       [''npm'' \<mapsto> document [rule ''npm'' ''/x'' weekly 7, rule ''npm'' ''/y'' daily 0]]
       (Some (Merge
          [''npm'' \<mapsto> document [rule ''npm'' ''/x'' weekly 7, rule ''npm'' ''/y'' daily 0]]
          (Some (document [rule ''npm'' ''/'' daily 3])) [detected ''npm'' [''/''] 1]))
       [detected ''npm'' [''/''] 1]))
     = [(''npm'', ''/'', ''weekly'', 7), (''npm'', ''/'', ''daily'', 7)]
   \<and> \<not> Equal
       (Some (Merge
          [''npm'' \<mapsto> document [rule ''npm'' ''/x'' weekly 7, rule ''npm'' ''/y'' daily 0]]
          (Some (Merge
             [''npm'' \<mapsto> document [rule ''npm'' ''/x'' weekly 7, rule ''npm'' ''/y'' daily 0]]
             (Some (document [rule ''npm'' ''/'' daily 3])) [detected ''npm'' [''/''] 1]))
          [detected ''npm'' [''/''] 1]))
       (Some (Merge
          [''npm'' \<mapsto> document [rule ''npm'' ''/x'' weekly 7, rule ''npm'' ''/y'' daily 0]]
          (Some (document [rule ''npm'' ''/'' daily 3])) [detected ''npm'' [''/''] 1]))"
  by (simp add: ex_defs merge_defs compared_def Update_Equal_def)

text \<open>
  Claim C1, witness: npm in two directories with a template that sets no limit, docker
  without a template, and an existing document with a docker and an npm rule.
\<close>

theorem Merge_idempotent_witness:
  "wellFormedInputs [''npm'' \<mapsto> document [rule ''npm'' [] weekly 0]]
     [detected ''npm'' [''/'', ''/packages/ui''] 1, detected ''docker'' [''/''] (9/10)]
   \<and> Equal
       (Some (Merge [''npm'' \<mapsto> document [rule ''npm'' [] weekly 0]]
          (Some (Merge [''npm'' \<mapsto> document [rule ''npm'' [] weekly 0]]
             (Some (document [rule ''docker'' ''/app'' daily 3, rule ''npm'' ''/'' daily 3]))
             [detected ''npm'' [''/'', ''/packages/ui''] 1, detected ''docker'' [''/''] (9/10)]))
          [detected ''npm'' [''/'', ''/packages/ui''] 1, detected ''docker'' [''/''] (9/10)]))
       (Some (Merge [''npm'' \<mapsto> document [rule ''npm'' [] weekly 0]]
          (Some (document [rule ''docker'' ''/app'' daily 3, rule ''npm'' ''/'' daily 3]))
          [detected ''npm'' [''/'', ''/packages/ui''] 1, detected ''docker'' [''/''] (9/10)]))
   \<and> map compared (Updates (Merge [''npm'' \<mapsto> document [rule ''npm'' [] weekly 0]]
          (Some (document [rule ''docker'' ''/app'' daily 3, rule ''npm'' ''/'' daily 3]))
          [detected ''npm'' [''/'', ''/packages/ui''] 1, detected ''docker'' [''/''] (9/10)]))
      = [(''docker'', ''/'', ''daily'', 3), (''npm'', ''/'', ''weekly'', 3),
         (''npm'', ''/packages/ui'', ''weekly'', 0)]"
proof -
  have a: "wellFormedInputs [''npm'' \<mapsto> document [rule ''npm'' [] weekly 0]]
     [detected ''npm'' [''/'', ''/packages/ui''] 1, detected ''docker'' [''/''] (9/10)]"
    by (simp add: wellFormedInputs_def wellFormedEcosystem_def ex_defs isRootOnlyEcosystem_def)
  have b: "map compared (Updates (Merge [''npm'' \<mapsto> document [rule ''npm'' [] weekly 0]]
          (Some (document [rule ''docker'' ''/app'' daily 3, rule ''npm'' ''/'' daily 3]))
          [detected ''npm'' [''/'', ''/packages/ui''] 1, detected ''docker'' [''/''] (9/10)]))
      = [(''docker'', ''/'', ''daily'', 3), (''npm'', ''/'', ''weekly'', 3),
         (''npm'', ''/packages/ui'', ''weekly'', 0)]"
    by (simp add: ex_defs merge_defs compared_def)
  from a b Merge_idempotent [OF a,
      of "Some (document [rule ''docker'' ''/app'' daily 3, rule ''npm'' ''/'' daily 3])"]
  show ?thesis by simp
qed

subsection \<open>The sort by confidence\<close>

lemma raiseHighest_mset:
  "raiseHighest x ys = (h, rest) \<Longrightarrow> add_mset h (mset rest) = add_mset x (mset ys)"
proof (induction ys arbitrary: x h rest)
  case Nil
  then show ?case by simp
next
  case (Cons y ys)
  show ?case
  proof (cases "Confidence y > Confidence x")
    case True
    obtain h' rest' where r: "raiseHighest y ys = (h', rest')" by (cases "raiseHighest y ys")
    with True Cons.prems have "h = h'" "rest = x # rest'" by simp_all
    with Cons.IH [OF r] show ?thesis by (simp add: add_mset_commute)
  next
    case False
    obtain h' rest' where r: "raiseHighest x ys = (h', rest')" by (cases "raiseHighest x ys")
    with False Cons.prems have "h = h'" "rest = y # rest'" by simp_all
    with Cons.IH [OF r] show ?thesis by (simp add: add_mset_commute)
  qed
qed



lemma mset_sortFrom: "mset (sortFrom n xs) = mset xs"
proof (induction n xs rule: sortFrom.induct)
  case (3 n x xs)
  obtain h rest where r: "raiseHighest x xs = (h, rest)" by (cases "raiseHighest x xs")
  with 3 raiseHighest_mset [OF r] show ?case by simp
qed simp_all


lemma mset_sortByConfidence: "mset (sortByConfidence xs) = mset xs"
  by (simp add: sortByConfidence_def mset_sortFrom)


subsection \<open>The scan of the tree\<close>

lemma scanLocal_Nil: "scanLocal path dir k [] cur = cur"
  by (simp add: scanLocal_def)

lemma scanLocal_Cons:
  "scanLocal path dir k (i # files) cur =
     scanLocal path dir k files
       (if matchesPattern path (filePattern i) then Some (recordMatch k dir i cur) else cur)"
  by (simp add: scanLocal_def)

lemma scanIndicator_lookup:
  "scanIndicator path dir k i m k' =
     (if k' = k \<and> matchesPattern path (filePattern i) then Some (recordMatch k dir i (m k)) else m k')"
  by (simp add: scanIndicator_def)

lemma fold_scanIndicator_lookup:
  "fold (scanIndicator path dir k) files m k' =
     (if k' = k then scanLocal path dir k files (m k) else m k')"
proof (induction files arbitrary: m)
  case Nil
  then show ?case by (simp add: scanLocal_Nil)
next
  case (Cons i files)
  have "fold (scanIndicator path dir k) (i # files) m k'
        = fold (scanIndicator path dir k) files (scanIndicator path dir k i m) k'"
    by simp
  also have "\<dots> = (if k' = k then scanLocal path dir k files (scanIndicator path dir k i m k)
                      else scanIndicator path dir k i m k')"
    by (rule Cons.IH)
  also have "\<dots> = (if k' = k then scanLocal path dir k (i # files) (m k) else m k')"
    by (simp add: scanIndicator_lookup scanLocal_Cons)
  finally show ?case .
qed

lemma scanEcosystem_local:
  "scanEcosystem path dir entry m k =
     (if k = fst entry then scanLocal path dir (fst entry) (snd entry) (m (fst entry)) else m k)"
  by (simp add: scanEcosystem_def fold_scanIndicator_lookup)



lemma scanFile_lookup:
  assumes "distinct (map fst catalog)"
  shows "scanFile catalog path m k =
     (case map_of catalog k of
        None \<Rightarrow> m k
      | Some files \<Rightarrow> scanLocal path (extractDirectory path) k files (m k))"
proof -
  let ?f = "scanEcosystem path (extractDirectory path)"
  have "fold ?f catalog m k =
     (case map_of catalog k of
        None \<Rightarrow> m k
      | Some files \<Rightarrow> scanLocal path (extractDirectory path) k files (m k))"
    using assms
  proof (induction catalog arbitrary: m)
    case Nil
    then show ?case by simp
  next
    case (Cons entry catalog)
    obtain k' files' where entry: "entry = (k', files')" by (cases entry)
    from Cons.prems entry have notin: "map_of catalog k' = None"
      by (simp add: map_of_eq_None_iff)
    from Cons.prems have d: "distinct (map fst catalog)" by simp
    have "fold ?f (entry # catalog) m k = fold ?f catalog (?f entry m) k" by simp
    also have "\<dots> = (case map_of catalog k of
        None \<Rightarrow> ?f entry m k
      | Some files \<Rightarrow> scanLocal path (extractDirectory path) k files (?f entry m k))"
      by (rule Cons.IH [OF d])
    also have "\<dots> = (case map_of (entry # catalog) k of
        None \<Rightarrow> m k
      | Some files \<Rightarrow> scanLocal path (extractDirectory path) k files (m k))"
      using notin by (simp add: entry scanEcosystem_local split: option.splits)
    finally show ?case .
  qed
  then show ?thesis by (simp add: scanFile_def)
qed

lemma distinct_indicators: "distinct (map fst indicators)"
  by (simp add: indicators_def)

lemma recordMatch_Name:
  "Name (recordMatch k dir i cur) = (case cur of None \<Rightarrow> k | Some e \<Rightarrow> Name e)"
  by (simp add: recordMatch_def Let_def split: option.splits)

lemma recordMatch_Confidence:
  "Confidence (recordMatch k dir i cur) =
     (case cur of None \<Rightarrow> confidence i | Some e \<Rightarrow> max (Confidence e) (confidence i))"
  by (auto simp: recordMatch_def Let_def max_def split: option.splits)

lemma scanLocal_Name:
  "(\<forall>e. cur = Some e \<longrightarrow> Name e = k) \<Longrightarrow> scanLocal path dir k files cur = Some e \<Longrightarrow> Name e = k"
proof (induction files arbitrary: cur)
  case Nil
  then show ?case by (simp add: scanLocal_Nil)
next
  case (Cons i files)
  show ?case
  proof (cases "matchesPattern path (filePattern i)")
    case True
    have "\<forall>e'. Some (recordMatch k dir i cur) = Some e' \<longrightarrow> Name e' = k"
      using Cons.prems(1) by (auto simp: recordMatch_Name split: option.splits)
    from Cons.IH [OF this] Cons.prems(2) True show ?thesis by (simp add: scanLocal_Cons)
  next
    case False
    with Cons show ?thesis by (simp add: scanLocal_Cons)
  qed
qed

lemma scanLocal_Confidence:
  "map_option Confidence (scanLocal path dir k files cur)
     = fold maxWeight (map confidence (filter (\<lambda>i. matchesPattern path (filePattern i)) files))
         (map_option Confidence cur)"
proof (induction files arbitrary: cur)
  case Nil
  then show ?case by (simp add: scanLocal_Nil)
next
  case (Cons i files)
  show ?case
    by (cases cur) (simp_all add: Cons.IH scanLocal_Cons recordMatch_Confidence maxWeight_def)
qed


lemma fold_scanEntry_blobPaths:
  "fold scanEntry entries m = fold (scanFile indicators) (blobPaths entries) m"
proof (induction entries arbitrary: m)
  case Nil
  then show ?case by (simp add: blobPaths_def map_filter_simps)
next
  case (Cons entry entries)
  have bp: "blobPaths (entry # entries) =
      (case (if Entry_Type entry = Some ''blob'' then Entry_Path entry else None) of
         None \<Rightarrow> blobPaths entries | Some path \<Rightarrow> path # blobPaths entries)"
    unfolding blobPaths_def by (simp add: map_filter_simps)
  have se: "scanEntry entry m =
      (case (if Entry_Type entry = Some ''blob'' then Entry_Path entry else None) of
         None \<Rightarrow> m | Some path \<Rightarrow> scanFile indicators path m)"
    by (simp add: scanEntry_def)
  have "fold scanEntry (entry # entries) m = fold scanEntry entries (scanEntry entry m)" by simp
  also have "\<dots> = fold (scanFile indicators) (blobPaths entries) (scanEntry entry m)"
    by (rule Cons.IH)
  also have "\<dots> = fold (scanFile indicators) (blobPaths (entry # entries)) m"
    unfolding bp se by (simp split: option.splits)
  finally show ?case .
qed

lemma matchedWeights_pathWeights:
  "matchedWeights tag entries = concat (map (pathWeights tag) (blobPaths entries))"
  unfolding matchedWeights_def pathWeights_def ..

lemma scanFile_Confidence:
  "map_option Confidence (scanFile indicators path m k)
     = fold maxWeight (pathWeights k path) (map_option Confidence (m k))"
  by (simp add: scanFile_lookup [OF distinct_indicators] pathWeights_def scanLocal_Confidence
      split: option.splits)

lemma scanFile_Name:
  assumes "\<forall>k e. m k = Some e \<longrightarrow> Name e = k \<and> k \<in> set (map fst indicators)"
    and "scanFile indicators path m k = Some e"
  shows "Name e = k \<and> k \<in> set (map fst indicators)"
proof (cases "map_of indicators k")
  case None
  with assms show ?thesis by (simp add: scanFile_lookup [OF distinct_indicators])
next
  case (Some files)
  then have "k \<in> set (map fst indicators)"
    by (metis map_of_eq_None_iff option.distinct(1) set_map)
  moreover from assms Some have "Name e = k"
    by (auto simp: scanFile_lookup [OF distinct_indicators] intro: scanLocal_Name [rotated])
  ultimately show ?thesis by simp
qed

lemma fold_scanFile_Confidence:
  "map_option Confidence (fold (scanFile indicators) paths m k)
     = fold maxWeight (concat (map (pathWeights k) paths)) (map_option Confidence (m k))"
proof (induction paths arbitrary: m)
  case Nil
  then show ?case by simp
next
  case (Cons path paths)
  have "map_option Confidence (fold (scanFile indicators) (path # paths) m k)
      = map_option Confidence (fold (scanFile indicators) paths (scanFile indicators path m) k)"
    by simp
  also have "\<dots> = fold maxWeight (concat (map (pathWeights k) paths))
       (map_option Confidence (scanFile indicators path m k))"
    by (rule Cons.IH)
  also have "\<dots> = fold maxWeight (concat (map (pathWeights k) (path # paths))) (map_option Confidence (m k))"
    by (simp add: scanFile_Confidence)
  finally show ?case .
qed

lemma fold_scanFile_Name:
  assumes "\<forall>k e. m k = Some e \<longrightarrow> Name e = k \<and> k \<in> set (map fst indicators)"
  shows "\<forall>k e. fold (scanFile indicators) paths m k = Some e \<longrightarrow> Name e = k \<and> k \<in> set (map fst indicators)"
  using assms
proof (induction paths arbitrary: m)
  case Nil
  then show ?case by simp
next
  case (Cons path paths)
  have "\<forall>k e. scanFile indicators path m k = Some e \<longrightarrow> Name e = k \<and> k \<in> set (map fst indicators)"
    using scanFile_Name [OF Cons.prems] by blast
  from Cons.IH [OF this] show ?case by simp
qed

lemma fold_maxWeight_Some:
  "fold maxWeight ws (Some c) = Some (Max (insert c (set ws)))"
proof (induction ws arbitrary: c)
  case Nil
  then show ?case by simp
next
  case (Cons w ws)
  have "fold maxWeight (w # ws) (Some c) = fold maxWeight ws (Some (max c w))"
    by (simp add: maxWeight_def)
  also have "\<dots> = Some (Max (insert (max c w) (set ws)))" by (rule Cons.IH)
  also have "Max (insert (max c w) (set ws)) = Max (insert c (set (w # ws)))"
  proof (cases "set ws = {}")
    case True
    then show ?thesis by (simp add: max.commute)
  next
    case False
    then show ?thesis by (simp add: max.assoc max.commute max.left_commute)
  qed
  finally show ?case .
qed

lemma fold_maxWeight_None:
  "fold maxWeight ws None = (if ws = [] then None else Some (Max (set ws)))"
proof (cases ws)
  case Nil
  then show ?thesis by simp
next
  case (Cons w ws')
  then show ?thesis by (simp add: maxWeight_def fold_maxWeight_Some)
qed

lemma filter_map_filter_Name:
  assumes "\<forall>k e. m k = Some e \<longrightarrow> Name e = k" "distinct order"
  shows "filter (\<lambda>e. Name e = k) (List.map_filter m order)
       = (if k \<in> set order then (case m k of None \<Rightarrow> [] | Some e \<Rightarrow> [e]) else [])"
  using assms(2)
proof (induction order)
  case Nil
  then show ?case by simp
next
  case (Cons x order)
  show ?case
  proof (cases "m x")
    case None
    with Cons show ?thesis by auto
  next
    case (Some e)
    with assms(1) have "Name e = x" by simp
    with Some Cons show ?thesis by auto
  qed
qed


subsection \<open>Confidence of a detected ecosystem\<close>

lemmas detect_defs = Detect_def scanEntry_def scanFile_def scanEcosystem_def scanIndicator_def
  recordMatch_def matchesPattern_def extractDirectory_def Dir_def Base_def Clean_def
  sortByConfidence_def indicators_def ind_def blob_def Let_def

lemma validRangeOrder_catalog:
  "validRangeOrder (map fst indicators)" "validRangeOrder (rev (map fst indicators))"
  by (simp_all add: validRangeOrder_def distinct_indicators)

lemma scanned_Name:
  "fold scanEntry entries Map.empty k = Some e \<Longrightarrow> Name e = k \<and> k \<in> set (map fst indicators)"
  using fold_scanFile_Name [of Map.empty "blobPaths entries"]
  by (simp add: fold_scanEntry_blobPaths)

lemma scanned_Confidence:
  "map_option Confidence (fold scanEntry entries Map.empty k)
     = (if matchedWeights k entries = [] then None else Some (Max (set (matchedWeights k entries))))"
  by (simp add: fold_scanEntry_blobPaths fold_scanFile_Confidence matchedWeights_pathWeights
      fold_maxWeight_None)

lemma Detect_Inr:
  "Detect order (Inr entries) = Inr (sortByConfidence (List.map_filter (fold scanEntry entries Map.empty) order))"
  by (simp add: Detect_def Let_def)

lemma mset_singleton_list: "mset xs = {#x#} \<Longrightarrow> xs = [x]"
  by (cases xs) auto

text \<open>
  Claim C9. For every tree and every ecosystem tag, \<open>Detect\<close> returns, and its result
  holds no ecosystem of that name when no file of the tree matches an indicator of the
  tag, and otherwise exactly one, whose confidence is the maximum of the weights of the
  tag's indicators that some file of the tree matches; this in whatever order the map
  of ecosystems is ranged over.
\<close>

theorem Detect_confidence_max:
  assumes "validRangeOrder order"
  shows "\<exists>result. Detect order (Inr entries) = Inr result
     \<and> map Confidence (filter (\<lambda>e. Name e = tag) result)
        = (if matchedWeights tag entries = [] then []
           else [Max (set (matchedWeights tag entries))])"
proof -
  let ?m = "fold scanEntry entries Map.empty"
  let ?raw = "List.map_filter ?m order"
  let ?r = "sortByConfidence ?raw"
  have named: "\<forall>k e. ?m k = Some e \<longrightarrow> Name e = k"
    using scanned_Name by blast
  have d: "distinct order" and s: "set order = set (map fst indicators)"
    using assms by (simp_all add: validRangeOrder_def)
  have f0: "filter (\<lambda>e. Name e = tag) ?raw = (case ?m tag of None \<Rightarrow> [] | Some e \<Rightarrow> [e])"
  proof (cases "tag \<in> set order")
    case True
    then show ?thesis by (simp add: filter_map_filter_Name [OF named d])
  next
    case False
    with s scanned_Name [of entries tag] have "?m tag = None"
      by (cases "?m tag") auto
    with False show ?thesis by (simp add: filter_map_filter_Name [OF named d])
  qed
  define fr where "fr = filter (\<lambda>e. Name e = tag) ?r"
  have "mset fr = mset (filter (\<lambda>e. Name e = tag) ?raw)"
    by (simp add: fr_def mset_sortByConfidence)
  with f0 have "mset fr = mset (case ?m tag of None \<Rightarrow> [] | Some e \<Rightarrow> [e])"
    by simp
  then have "fr = (case ?m tag of None \<Rightarrow> [] | Some e \<Rightarrow> [e])"
    by (cases "?m tag") (simp_all add: mset_singleton_list)
  then have f: "filter (\<lambda>e. Name e = tag) ?r = (case ?m tag of None \<Rightarrow> [] | Some e \<Rightarrow> [e])"
    by (simp add: fr_def)
  have "map Confidence (filter (\<lambda>e. Name e = tag) ?r)
        = (if matchedWeights tag entries = [] then [] else [Max (set (matchedWeights tag entries))])"
    using scanned_Confidence [of entries tag] unfolding f
    by (cases "?m tag") (auto split: if_splits)
  then show ?thesis by (simp add: Detect_Inr)
qed

text \<open>
  Claim C9, witness: the example of the specification, a tree with package-lock.json
  (weight 1.0) and package.json (weight 0.8), gives one npm ecosystem of confidence 1.0.
\<close>

theorem Detect_confidence_max_witness:
  "validRangeOrder (map fst indicators)
   \<and> Detect (map fst indicators) (Inr [blob ''package-lock.json'', blob ''package.json''])
       = (Inr [\<lparr>Name = ''npm'', Type = ''npm'', Directories = [''/''], Confidence = 1\<rparr>]
            :: unit detect_error + Ecosystem list)
   \<and> matchedWeights ''npm'' [blob ''package-lock.json'', blob ''package.json''] = [1, 8/10]
   \<and> Max (set (matchedWeights ''npm'' [blob ''package-lock.json'', blob ''package.json''])) = 1"
proof -
  have a: "Detect (map fst indicators) (Inr [blob ''package-lock.json'', blob ''package.json''])
       = (Inr [\<lparr>Name = ''npm'', Type = ''npm'', Directories = [''/''], Confidence = 1\<rparr>]
            :: unit detect_error + Ecosystem list)"
    by (simp add: detect_defs)
  have b: "matchedWeights ''npm'' [blob ''package-lock.json'', blob ''package.json''] = [1, 8/10]"
    by (simp add: matchedWeights_def blobPaths_def detect_defs)
  from Detect_confidence_max [OF validRangeOrder_catalog(1)]
  obtain result where r: "Detect (map fst indicators)
        (Inr [blob ''package-lock.json'', blob ''package.json''] :: unit + TreeEntry list) = Inr result"
      "map Confidence (filter (\<lambda>e. Name e = ''npm'') result)
        = (if matchedWeights ''npm'' [blob ''package-lock.json'', blob ''package.json''] = [] then []
           else [Max (set (matchedWeights ''npm'' [blob ''package-lock.json'', blob ''package.json'']))])"
    by blast
  from r(1) a have "result = [\<lparr>Name = ''npm'', Type = ''npm'', Directories = [''/''], Confidence = 1\<rparr>]"
    by simp
  with r(2) b have "Max (set (matchedWeights ''npm'' [blob ''package-lock.json'', blob ''package.json''])) = 1"
    by simp
  with a b validRangeOrder_catalog(1) show ?thesis by simp
qed

subsection \<open>Determinism\<close>





end
